theory Spec2Isabelle
  imports Complex_Main "HOL-Library.Word"
begin

section \<open>Conventions of the embedding\<close>

text \<open>
  The program is C++ for the Bela audio board: a delay effect (DelayEffect.cpp), a bank of
  low-frequency oscillators (lfo.cpp) and a looper driven by the audio callback
  (render.cpp).

  \<^item> The \<open>float\<close> arithmetic of DelayEffect.cpp, of the control tick of \<open>render\<close> and of the
    looper's read index is single precision: every operation returns \<open>to_float\<close> of the
    exact result (round to nearest, ties to even; no operation is fused with another or
    evaluated in a wider format), and a conversion from an integer type rounds the same
    way.
  \<^item> The oscillators of lfo.cpp, and the sample values the looper adds up, are modelled
    in exact arithmetic on \<open>real\<close>: a statement about them is a statement about this
    idealised arithmetic.
  \<^item> \<open>real\<close> has no infinity and no NaN. A division by zero is a result of the model
    (\<open>NotFinite\<close>); overflow is not: where a statement gives sample values in single
    precision it bounds them below 2^128, the first value single precision cannot hold.
  \<^item> \<open>unsigned int\<close> is \<open>32 word\<close>; \<open>int\<close> is a mathematical integer whose range
    \<open>[-2^31, 2^31)\<close> is checked wherever the code computes a new value.
  \<^item> Everything the C++ standard leaves undefined (an index outside a vector, a
    conversion from floating point to an integer type that cannot hold the value, signed
    overflow, remainder by zero) and a loop that does not end are results of the model:
    a function that can run into one of them returns \<open>fault + 'a\<close>.
\<close>

datatype fault =
    Diverges          \<comment> \<open>a loop that never ends\<close>
  | OutOfBounds       \<comment> \<open>\<open>v[i]\<close> with \<open>i\<close> outside \<open>v\<close>\<close>
  | BadConversion     \<comment> \<open>floating point to integer, value not representable\<close>
  | SignedOverflow    \<comment> \<open>\<open>int\<close> arithmetic leaving the range of \<open>int\<close>\<close>
  | DivByZero         \<comment> \<open>\<open>%\<close> by zero\<close>
  | NotFinite         \<comment> \<open>a floating-point division by zero: an infinity or a NaN, which \<open>real\<close> lacks\<close>

type_synonym uint = "32 word"

definition INT_MAX :: int where
  "INT_MAX = 2147483647"

definition INT_MIN :: int where
  "INT_MIN = - 2147483648"

text \<open>\<open>(unsigned int) x\<close> for a floating-point \<open>x\<close>: truncation towards zero, undefined
  when the truncated value is not an \<open>unsigned int\<close>.\<close>

definition trunc :: "real \<Rightarrow> int" where
  "trunc x = (if 0 \<le> x then \<lfloor>x\<rfloor> else \<lceil>x\<rceil>)"

definition float_to_uint :: "real \<Rightarrow> fault + uint" where
  "float_to_uint x =
     (if 0 \<le> trunc x \<and> trunc x < 2 ^ 32 then Inr (word_of_int (trunc x))
      else Inl BadConversion)"

text \<open>\<open>(int) x\<close> for a floating-point \<open>x\<close>.\<close>

definition float_to_int :: "real \<Rightarrow> fault + int" where
  "float_to_int x =
     (if INT_MIN \<le> trunc x \<and> trunc x \<le> INT_MAX then Inr (trunc x)
      else Inl BadConversion)"

text \<open>\<open>a + b\<close> on \<open>int\<close>.\<close>

definition int_add :: "int \<Rightarrow> int \<Rightarrow> fault + int" where
  "int_add a b =
     (if INT_MIN \<le> a + b \<and> a + b \<le> INT_MAX then Inr (a + b) else Inl SignedOverflow)"

text \<open>\<open>a % b\<close> on \<open>int\<close>: the remainder of the division that truncates towards zero.\<close>

definition int_rem :: "int \<Rightarrow> int \<Rightarrow> fault + int" where
  "int_rem a b =
     (if b = 0 then Inl DivByZero
      else if a = INT_MIN \<and> b = - 1 then Inl SignedOverflow
      else Inr (sgn a * (\<bar>a\<bar> mod \<bar>b\<bar>)))"

text \<open>\<open>v[i]\<close> on a \<open>std::vector<float>\<close>, the index an \<open>int\<close>.\<close>

definition vec_at :: "real list \<Rightarrow> int \<Rightarrow> fault + real" where
  "vec_at v i = (if 0 \<le> i \<and> i < int (length v) then Inr (v ! nat i) else Inl OutOfBounds)"

text \<open>Sequencing of fallible steps.\<close>

definition bind :: "fault + 'a \<Rightarrow> ('a \<Rightarrow> fault + 'b) \<Rightarrow> fault + 'b" where
  "bind m f = (case m of Inl e \<Rightarrow> Inl e | Inr x \<Rightarrow> f x)"

text \<open>Single precision: the value nearest to a real, ties to the even significand, with
  24 significant bits. The unit in the last place of \<open>x\<close> is \<open>2 ^ (e - 23)\<close> for the
  exponent \<open>e\<close> of \<open>x\<close>, which is not below -126: smaller values are spaced 2^-149 apart
  (gradual underflow). There is no largest value.\<close>

definition round_even :: "real \<Rightarrow> int" where
  "round_even x =
     (if x - of_int \<lfloor>x\<rfloor> < 1 / 2 then \<lfloor>x\<rfloor>
      else if x - of_int \<lfloor>x\<rfloor> > 1 / 2 then \<lfloor>x\<rfloor> + 1
      else if even \<lfloor>x\<rfloor> then \<lfloor>x\<rfloor> else \<lfloor>x\<rfloor> + 1)"

definition ulp_exp :: "real \<Rightarrow> int" where
  "ulp_exp x = max \<lfloor>log 2 \<bar>x\<bar>\<rfloor> (- 126)"

definition to_float :: "real \<Rightarrow> real" where
  "to_float x =
     (if x = 0 then 0
      else let ulp = 2 powr (of_int (ulp_exp x) - 23)
           in of_int (round_even (x / ulp)) * ulp)"

section \<open>DelayEffect.h, DelayEffect.cpp\<close>

definition clampValue :: "real \<Rightarrow> real \<Rightarrow> real \<Rightarrow> real" where
  "clampValue v minVal maxVal =
     (if v < minVal then minVal else if v > maxVal then maxVal else v)"

record DelayEffect =
  sampleRate :: uint
  bufferSize :: uint
  writePointer :: uint
  currentDelayTimeInSamples :: real
  targetDelayTimeInSamples :: real
  timeSmoothingFactor :: real
  feedback :: real
  mix :: real
  delayBuffer :: "real list"

text \<open>\<open>setDelayTime\<close>: \<open>sampleRate\<close> is converted to \<open>float\<close> and multiplied by the delay
  time, the product (rounded, as every \<open>float\<close> result) is converted to \<open>unsigned int\<close>,
  bounded by \<open>bufferSize - 1\<close> (an unsigned subtraction, which wraps when \<open>bufferSize\<close> is 0),
  converted back to \<open>float\<close> and stored as the target.\<close>

definition setDelayTime :: "DelayEffect \<Rightarrow> real \<Rightarrow> fault + DelayEffect" where
  "setDelayTime d delayTimeSec =
     bind (float_to_uint (to_float (delayTimeSec * to_float (real (unat (sampleRate d)))))) (\<lambda>samples.
       Inr (d\<lparr>targetDelayTimeInSamples := to_float (real (unat (min samples (bufferSize d - 1))))\<rparr>))"

definition setFeedback :: "DelayEffect \<Rightarrow> real \<Rightarrow> DelayEffect" where
  "setFeedback d feedbackAmount = d\<lparr>feedback := clampValue feedbackAmount 0 1\<rparr>"

definition setMix :: "DelayEffect \<Rightarrow> real \<Rightarrow> DelayEffect" where
  "setMix d mixAmount = d\<lparr>mix := clampValue mixAmount 0 1\<rparr>"

definition setTimeSmoothingFactor :: "DelayEffect \<Rightarrow> real \<Rightarrow> DelayEffect" where
  "setTimeSmoothingFactor d factor = d\<lparr>timeSmoothingFactor := clampValue factor 0 1\<rparr>"

text \<open>The constructor \<open>DelayEffect::DelayEffect(sr, delayTimeSec, feedbackAmount, bufSize)\<close>.
  The smoothing factor is the literal \<open>0.01f\<close>.\<close>

definition DelayEffect_new :: "uint \<Rightarrow> real \<Rightarrow> real \<Rightarrow> uint \<Rightarrow> fault + DelayEffect" where
  "DelayEffect_new sr delayTimeSec feedbackAmount bufSize =
     (let d0 = \<lparr>sampleRate = sr, bufferSize = bufSize, writePointer = 0,
                 currentDelayTimeInSamples = 0, targetDelayTimeInSamples = 0,
                 timeSmoothingFactor = to_float (1 / 100), feedback = 1 / 2, mix = 1 / 2,
                 delayBuffer = replicate (unat bufSize) 0\<rparr>
      in bind (setDelayTime d0 delayTimeSec) (\<lambda>d1.
           Inr (setMix
                  (setFeedback
                     (d1\<lparr>currentDelayTimeInSamples := targetDelayTimeInSamples d1\<rparr>)
                     feedbackAmount)
                  (1 / 2))))"

text \<open>The two loops of \<open>processSample\<close> that bring the read position into the buffer:
  \<open>while(desiredRead < 0.f) desiredRead += (float)bufferSize;\<close> and
  \<open>while(desiredRead >= (float)bufferSize) desiredRead -= (float)bufferSize;\<close>, the
  argument \<open>n\<close> being \<open>(float)bufferSize\<close>. \<open>None\<close> is a loop that does not end.\<close>

partial_function (option) wrap_up :: "real \<Rightarrow> real \<Rightarrow> real option" where
  "wrap_up desiredRead n =
     (if desiredRead < 0 then wrap_up (to_float (desiredRead + n)) n else Some desiredRead)"

partial_function (option) wrap_down :: "real \<Rightarrow> real \<Rightarrow> real option" where
  "wrap_down desiredRead n =
     (if desiredRead \<ge> n then wrap_down (to_float (desiredRead - n)) n else Some desiredRead)"

definition loop_result :: "real option \<Rightarrow> fault + real" where
  "loop_result r = (case r of None \<Rightarrow> Inl Diverges | Some x \<Rightarrow> Inr x)"

text \<open>\<open>(floorPos + 1) % bufferSize\<close>: the \<open>int\<close> sum is converted to \<open>unsigned int\<close> for
  the remainder, and the result is stored in an \<open>int\<close>.\<close>

definition next_pos :: "int \<Rightarrow> uint \<Rightarrow> fault + int" where
  "next_pos floorPos n =
     bind (int_add floorPos 1) (\<lambda>p.
       if n = 0 then Inl DivByZero else Inr (sint ((word_of_int p :: uint) mod n)))"

text \<open>The first statements of \<open>processSample\<close>: the smoothed delay (lines 41 and 42)
  and the read position brought into the buffer (lines 45 to 47).\<close>

definition smoothed_delay :: "DelayEffect \<Rightarrow> real" where
  "smoothed_delay d =
     (let diff = to_float (targetDelayTimeInSamples d - currentDelayTimeInSamples d)
      in to_float (currentDelayTimeInSamples d + to_float (timeSmoothingFactor d * diff)))"

definition read_position :: "DelayEffect \<Rightarrow> fault + real" where
  "read_position d =
     (let n = to_float (real (unat (bufferSize d)));
          desiredRead = to_float (to_float (real (unat (writePointer d))) - smoothed_delay d)
      in bind (loop_result (wrap_up desiredRead n)) (\<lambda>r1.
           loop_result (wrap_down r1 n)))"

text \<open>\<open>processSample\<close>. \<open>std::floor\<close> returns a whole \<open>float\<close>, which is converted to
  \<open>int\<close> and, for the fraction, back to \<open>float\<close>.\<close>

definition processSample :: "DelayEffect \<Rightarrow> real \<Rightarrow> fault + (real \<times> DelayEffect)" where
  "processSample d inputSample =
     (let cur = smoothed_delay d
      in bind (read_position d) (\<lambda>desiredRead.
         bind (float_to_int (of_int \<lfloor>desiredRead\<rfloor>)) (\<lambda>floorPos.
         let frac = to_float (desiredRead - to_float (of_int floorPos)) in
         bind (next_pos floorPos (bufferSize d)) (\<lambda>nextPos.
         bind (vec_at (delayBuffer d) floorPos) (\<lambda>b0.
         bind (vec_at (delayBuffer d) nextPos) (\<lambda>b1.
         let delayedSample = to_float (to_float (to_float (1 - frac) * b0) + to_float (frac * b1));
             output = to_float (to_float (to_float (1 - mix d) * inputSample)
                                + to_float (mix d * delayedSample))
         in if unat (writePointer d) < length (delayBuffer d)
            then if bufferSize d = 0 then Inl DivByZero
                 else Inr (output,
                        d\<lparr>currentDelayTimeInSamples := cur,
                          delayBuffer := (delayBuffer d)[unat (writePointer d) :=
                                            to_float (inputSample + to_float (delayedSample * feedback d))],
                          writePointer := (writePointer d + 1) mod bufferSize d\<rparr>)
            else Inl OutOfBounds))))))"

text \<open>The class invariant, which the constructor establishes and every member function
  keeps (\<open>wf_DelayEffect_new\<close>, \<open>calls_delay_wf\<close>): the buffer has \<open>bufferSize\<close> slots, at least
  one and at most 2^24 (single precision holds every whole number up to 2^24, so the
  write pointer and the capacity convert exactly), and the write pointer is one of them;
  the smoothing factor, the feedback and the mix are in [0, 1]; the target is a
  single-precision value in [0, capacity - 1]; the current delay is a single-precision
  value in [0, 2 * (capacity - 1)] (a rounded step towards the target can pass it).\<close>

definition wf_delay :: "DelayEffect \<Rightarrow> bool" where
  "wf_delay d \<longleftrightarrow>
     0 < unat (bufferSize d) \<and> unat (bufferSize d) \<le> 2 ^ 24 \<and>
     length (delayBuffer d) = unat (bufferSize d) \<and>
     unat (writePointer d) < unat (bufferSize d) \<and>
     0 \<le> timeSmoothingFactor d \<and> timeSmoothingFactor d \<le> 1 \<and>
     0 \<le> feedback d \<and> feedback d \<le> 1 \<and> 0 \<le> mix d \<and> mix d \<le> 1 \<and>
     to_float (targetDelayTimeInSamples d) = targetDelayTimeInSamples d \<and>
     0 \<le> targetDelayTimeInSamples d \<and>
     targetDelayTimeInSamples d \<le> real (unat (bufferSize d)) - 1 \<and>
     to_float (currentDelayTimeInSamples d) = currentDelayTimeInSamples d \<and>
     0 \<le> currentDelayTimeInSamples d \<and>
     currentDelayTimeInSamples d \<le> 2 * (real (unat (bufferSize d)) - 1)"

text \<open>A run of the delay line: calls of its member functions, one after the other.\<close>

datatype delay_call =
    SetDelayTime real
  | SetFeedback real
  | SetMix real
  | SetTimeSmoothingFactor real
  | ProcessSample real

fun call_delay :: "DelayEffect \<Rightarrow> delay_call \<Rightarrow> fault + DelayEffect" where
  "call_delay d (SetDelayTime t) = setDelayTime d t"
| "call_delay d (SetFeedback g) = Inr (setFeedback d g)"
| "call_delay d (SetMix m) = Inr (setMix d m)"
| "call_delay d (SetTimeSmoothingFactor a) = Inr (setTimeSmoothingFactor d a)"
| "call_delay d (ProcessSample x) = bind (processSample d x) (\<lambda>(out, d'). Inr d')"

fun calls_delay :: "DelayEffect \<Rightarrow> delay_call list \<Rightarrow> fault + DelayEffect" where
  "calls_delay d [] = Inr d"
| "calls_delay d (c # cs) = bind (call_delay d c) (\<lambda>d'. calls_delay d' cs)"

text \<open>The delay times whose sample count \<open>(unsigned int)\<close> can hold: the conversion
  truncates towards zero, so the rounded product may lie anywhere in (-1, 2^32).\<close>

definition convertible :: "uint \<Rightarrow> real \<Rightarrow> bool" where
  "convertible sr t \<longleftrightarrow>
     - 1 < to_float (t * to_float (real (unat sr))) \<and>
     to_float (t * to_float (real (unat sr))) < 2 ^ 32"

fun defined_call :: "uint \<Rightarrow> delay_call \<Rightarrow> bool" where
  "defined_call sr (SetDelayTime t) = convertible sr t"
| "defined_call sr _ = True"

section \<open>lfo.cpp\<close>

text \<open>
  Modelled from the spec: \<open>lfo.h\<close>, which declares \<open>struct lfoparams\<close> and the constants
  \<open>INT_TRI\<close>, \<open>TRI\<close>, \<open>SINE\<close>, \<open>SQUARE\<close>, \<open>EXP\<close>, \<open>RELAX\<close>, \<open>HYPER\<close> and \<open>HYPER_SINE\<close>, is
  not among the sources. The fields are those \<open>lfo.cpp\<close> reads and writes, one state block
  per waveform (integrated triangle, triangle, sine, relaxation, exponential) as in the
  spec's data model; all are floating point but the counter \<open>startup_delay\<close> (an \<open>int\<close>)
  and \<open>lfo_type\<close>. The value of \<open>lfo_type\<close> is one of the eight case labels of \<open>run_lfo\<close>,
  which C++ requires to be distinct, or any other number (\<open>OTHER_TYPE\<close>), which takes the
  \<open>default\<close> branch; the 0 that \<open>init_lfo\<close> stores is \<open>INT_TRI\<close> (its comment: default to
  integrated triangle).

  A record field is a constant of the theory, so three names of the source change: the
  fields \<open>k\<close> and \<open>x\<close> are \<open>it_k\<close> and \<open>it_x\<close> here, and a field \<open>name_\<close> of the source (the
  value that takes effect at the next turning point) is \<open>name_new\<close>.
\<close>

datatype lfo_type_t = INT_TRI | TRI | SINE | SQUARE | EXP | RELAX | HYPER | HYPER_SINE | OTHER_TYPE

record lfoparams =
  startup_delay :: int
  it_k :: real
  k_new :: real
  nk :: real
  nk_new :: real
  psign :: real
  psign_new :: real
  nsign :: real
  nsign_new :: real
  sign :: real
  sign_new :: real
  lfo :: real
  it_x :: real
  ktri :: real
  trisign :: real
  trilfo :: real
  ksin :: real
  sin_part :: real
  cos_part :: real
  rlx_k :: real
  rlx_ik :: real
  rlx_sign :: real
  rlx_max :: real
  rlx_min :: real
  rlx_lfo :: real
  exp_ik :: real
  exp_k :: real
  exp_x :: real
  exp_min :: real
  exp_max :: real
  exp_sv :: real
  current_rate :: real
  lfo_type :: lfo_type_t

text \<open>\<open>M_E\<close> and \<open>M_PI\<close> of \<open>math.h\<close>.\<close>

definition M_E :: real where
  "M_E = exp 1"

definition M_PI :: real where
  "M_PI = pi"

text \<open>\<open>init_lfo(lp, fosc, fs, phase)\<close>: the argument \<open>lp\<close> is overwritten by the freshly
  allocated block before it is read. The divisions by \<open>fs\<close>, by \<open>frq\<close> and by \<open>fosc\<close> have
  no real value when the divisor is 0.\<close>

definition init_lfo :: "real \<Rightarrow> real \<Rightarrow> real \<Rightarrow> fault + lfoparams" where
  "init_lfo fosc fs phase =
     (if fs = 0 \<or> fosc = 0 then Inl NotFinite
      else
        let ts = 1 / fs;
            frq = 2 * fosc;
            t = 4 * frq * frq * ts * ts;
            p0 = phase / 180;
            p1 = (if p0 < 0 then - p0 else p0);
            p2 = p1 / frq;
            p3 = p2 * fs;
            q0 = frq * phase / (360 * fosc);
            (q1, trisign1) = (if q0 \<ge> 1 then (q0 - 1, - 1) else (q0, 1));
            (q2, trisign2) = (if q1 < 0 then (0, 1) else (q1, trisign1));
            ie = 1 / (1 - 1 / M_E);
            kr = exp (- 2 * fosc / fs);
            ke = exp (- 2 * (13133 / 10000) * fosc / fs)
        in bind (float_to_int p3) (\<lambda>phdly.
             Inr \<lparr>startup_delay = phdly,
                  it_k = 2 * ts * frq, k_new = 2 * ts * frq,
                  nk = - 2 * ts * frq, nk_new = - 2 * ts * frq,
                  psign = t, psign_new = t,
                  nsign = - t, nsign_new = - t,
                  sign = t, sign_new = t,
                  lfo = 0, it_x = 0,
                  ktri = frq / fs, trisign = trisign2, trilfo = q2,
                  ksin = M_PI * frq / fs,
                  sin_part = sin (2 * M_PI * phase / 360),
                  cos_part = cos (2 * M_PI * phase / 360),
                  rlx_k = kr, rlx_ik = 1 - kr,
                  rlx_sign = ie, rlx_max = ie, rlx_min = 1 - ie, rlx_lfo = 0,
                  exp_ik = ke, exp_k = 1 / ke, exp_x = ke,
                  exp_min = 1 / M_E, exp_max = 1 + 1 / M_E, exp_sv = 1 / M_E,
                  current_rate = fosc, lfo_type = INT_TRI\<rparr>))"

definition run_integrated_triangle_lfo :: "lfoparams \<Rightarrow> real \<times> lfoparams" where
  "run_integrated_triangle_lfo lp =
     (if startup_delay lp > 0
      then (0, lp\<lparr>startup_delay := startup_delay lp - 1, lfo := 0\<rparr>)
      else
        let lp1 = lp\<lparr>it_x := it_x lp + sign lp\<rparr>;
            lp2 = (if it_x lp1 \<ge> it_k lp1
                   then lp1\<lparr>sign := nsign_new lp1, it_x := k_new lp1,
                            it_k := k_new lp1, nk := nk_new lp1\<rparr>
                   else if it_x lp1 \<le> nk lp1
                   then lp1\<lparr>sign := psign_new lp1, it_x := nk_new lp1,
                            it_k := k_new lp1, nk := nk_new lp1\<rparr>
                   else lp1);
            lp3 = lp2\<lparr>lfo := lfo lp2 + it_x lp2\<rparr>;
            lp4 = (if lfo lp3 > 1 then lp3\<lparr>lfo := 1\<rparr> else lp3);
            lp5 = (if lfo lp4 < 0 then lp4\<lparr>lfo := 0\<rparr> else lp4)
        in (lfo lp5, lp5))"

definition run_triangle_lfo :: "lfoparams \<Rightarrow> real \<times> lfoparams" where
  "run_triangle_lfo lp =
     (let lp1 = lp\<lparr>trilfo := trilfo lp + ktri lp * trisign lp\<rparr>;
          lp2 = (if trilfo lp1 \<ge> 1 then lp1\<lparr>trisign := - 1\<rparr> else lp1);
          lp3 = (if trilfo lp2 \<le> 0 then lp2\<lparr>trisign := 1\<rparr> else lp2)
      in (trilfo lp3, lp3))"

definition run_sine_lfo :: "lfoparams \<Rightarrow> real \<times> lfoparams" where
  "run_sine_lfo lp =
     (let lp1 = lp\<lparr>sin_part := sin_part lp + cos_part lp * ksin lp\<rparr>;
          lp2 = lp1\<lparr>cos_part := cos_part lp1 - sin_part lp1 * ksin lp1\<rparr>
      in (1 / 2 * (1 + cos_part lp2), lp2))"

definition run_rlx_lfo :: "lfoparams \<Rightarrow> real \<times> lfoparams" where
  "run_rlx_lfo lp =
     (let lp1 = lp\<lparr>rlx_lfo := rlx_sign lp * rlx_ik lp + rlx_k lp * rlx_lfo lp\<rparr>;
          lp2 = (if rlx_lfo lp1 \<ge> 1 then lp1\<lparr>rlx_sign := rlx_min lp1\<rparr>
                 else if rlx_lfo lp1 \<le> 0 then lp1\<lparr>rlx_sign := rlx_max lp1\<rparr>
                 else lp1)
      in (rlx_lfo lp2, lp2))"

definition run_exp_lfo :: "lfoparams \<Rightarrow> real \<times> lfoparams" where
  "run_exp_lfo lp =
     (let lp1 = lp\<lparr>exp_sv := exp_sv lp * exp_x lp\<rparr>;
          lp2 = (if exp_sv lp1 \<ge> exp_max lp1 then lp1\<lparr>exp_x := exp_ik lp1\<rparr>
                 else if exp_sv lp1 \<le> exp_min lp1 then lp1\<lparr>exp_x := exp_k lp1\<rparr>
                 else lp1)
      in (exp_sv lp2 - exp_min lp2, lp2))"

text \<open>The arithmetic of the \<open>SQUARE\<close> case of \<open>run_lfo\<close> on the value \<open>run_sine_lfo\<close>
  returned.\<close>

definition square_shape :: "real \<Rightarrow> real" where
  "square_shape sine_out =
     (let lfo_out0 = sine_out - 1 / 2;
          lfo_out1 = (if lfo_out0 > 0 then lfo_out0 * (1 / (1 + 30 * lfo_out0))
                      else lfo_out0 * (1 / (1 - 30 * lfo_out0)));
          lfo_out2 = lfo_out1 * 16
      in lfo_out2 + 1 / 2)"

definition run_lfo :: "lfoparams \<Rightarrow> real \<times> lfoparams" where
  "run_lfo lp =
     (case lfo_type lp of
        INT_TRI \<Rightarrow> run_integrated_triangle_lfo lp
      | TRI \<Rightarrow> run_triangle_lfo lp
      | SINE \<Rightarrow> run_sine_lfo lp
      | SQUARE \<Rightarrow> (let (v, lp') = run_sine_lfo lp in (square_shape v, lp'))
      | EXP \<Rightarrow> run_exp_lfo lp
      | RELAX \<Rightarrow> run_rlx_lfo lp
      | HYPER \<Rightarrow> (let (v, lp') = run_integrated_triangle_lfo lp in (1 - \<bar>v - 1 / 2\<bar>, lp'))
      | HYPER_SINE \<Rightarrow> (let (v, lp') = run_sine_lfo lp in (1 - \<bar>v - 1 / 2\<bar>, lp'))
      | OTHER_TYPE \<Rightarrow> run_integrated_triangle_lfo lp)"

definition set_lfo_type :: "lfoparams \<Rightarrow> lfo_type_t \<Rightarrow> lfoparams" where
  "set_lfo_type lp type = lp\<lparr>lfo_type := type\<rparr>"

text \<open>\<open>n\<close> calls of \<open>run_lfo\<close>, one after the other: the values returned, first call
  first, and the state after the last call.\<close>

fun run_lfo_n :: "nat \<Rightarrow> lfoparams \<Rightarrow> real list \<times> lfoparams" where
  "run_lfo_n 0 lp = ([], lp)"
| "run_lfo_n (Suc n) lp =
     (let (v, lp1) = run_lfo lp; (vs, lp2) = run_lfo_n n lp1 in (v # vs, lp2))"

text \<open>The state blocks of the spec's data model, one per waveform recurrence, and the
  block each value of \<open>lfo_type\<close> makes \<open>run_lfo\<close> step: \<open>SQUARE\<close> and \<open>HYPER_SINE\<close> call
  \<open>run_sine_lfo\<close>, \<open>HYPER\<close> and the \<open>default\<close> branch call \<open>run_integrated_triangle_lfo\<close>.\<close>

datatype lfo_block = B_INT_TRI | B_TRI | B_SINE | B_RELAX | B_EXP

fun block_of :: "lfo_type_t \<Rightarrow> lfo_block" where
  "block_of INT_TRI = B_INT_TRI"
| "block_of TRI = B_TRI"
| "block_of SINE = B_SINE"
| "block_of SQUARE = B_SINE"
| "block_of EXP = B_EXP"
| "block_of RELAX = B_RELAX"
| "block_of HYPER = B_INT_TRI"
| "block_of HYPER_SINE = B_SINE"
| "block_of OTHER_TYPE = B_INT_TRI"

text \<open>The values of the fields of a block: the integer field, then the others.\<close>

fun block_state :: "lfo_block \<Rightarrow> lfoparams \<Rightarrow> int list \<times> real list" where
  "block_state B_INT_TRI lp =
     ([startup_delay lp],
      [it_k lp, k_new lp, nk lp, nk_new lp, psign lp, psign_new lp, nsign lp, nsign_new lp,
       sign lp, sign_new lp, lfo lp, it_x lp])"
| "block_state B_TRI lp = ([], [ktri lp, trisign lp, trilfo lp])"
| "block_state B_SINE lp = ([], [ksin lp, sin_part lp, cos_part lp])"
| "block_state B_RELAX lp =
     ([], [rlx_k lp, rlx_ik lp, rlx_sign lp, rlx_max lp, rlx_min lp, rlx_lfo lp])"
| "block_state B_EXP lp =
     ([], [exp_ik lp, exp_k lp, exp_x lp, exp_min lp, exp_max lp, exp_sv lp])"

text \<open>The interval in which the values of each waveform stay, for an oscillator
  initialised at \<open>fosc\<close> Hz and sample rate \<open>fs\<close>: [0, 1] where the code clamps, and
  otherwise [0, 1] widened by what one step of the recurrence can add beyond a turning
  point. For the sine oscillator the bound is on the raw state \<open>c = 2 * v - 1\<close>:
  \<open>c\<^sup>2 * (2 - ksin) \<le> 2\<close>.\<close>

fun output_bound :: "real \<Rightarrow> real \<Rightarrow> lfo_type_t \<Rightarrow> real \<Rightarrow> bool" where
  "output_bound fosc fs INT_TRI v \<longleftrightarrow> 0 \<le> v \<and> v \<le> 1"
| "output_bound fosc fs OTHER_TYPE v \<longleftrightarrow> 0 \<le> v \<and> v \<le> 1"
| "output_bound fosc fs HYPER v \<longleftrightarrow> 1 / 2 \<le> v \<and> v \<le> 1"
| "output_bound fosc fs TRI v \<longleftrightarrow> - (2 * fosc / fs) \<le> v \<and> v \<le> 1 + 2 * fosc / fs"
| "output_bound fosc fs EXP v \<longleftrightarrow>
     - ((1 - exp (- 2 * (13133 / 10000) * fosc / fs)) / exp 1) \<le> v
     \<and> v \<le> (1 + 1 / exp 1) / exp (- 2 * (13133 / 10000) * fosc / fs) - 1 / exp 1"
| "output_bound fosc fs RELAX v \<longleftrightarrow>
     - ((1 - exp (- 2 * fosc / fs)) / (exp 1 - 1)) \<le> v
     \<and> v \<le> 1 + (1 - exp (- 2 * fosc / fs)) / (exp 1 - 1)"
| "output_bound fosc fs SINE v \<longleftrightarrow> (2 * v - 1)\<^sup>2 * (2 - pi * (2 * fosc) / fs) \<le> 2"
| "output_bound fosc fs SQUARE v \<longleftrightarrow> - (1 / 30) < v \<and> v < 31 / 30"
| "output_bound fosc fs HYPER_SINE v \<longleftrightarrow>
     v \<le> 1 \<and> (2 * (1 - v))\<^sup>2 * (2 - pi * (2 * fosc) / fs) \<le> 2"

text \<open>What each recurrence keeps true from one call to the next.\<close>

definition tri_inv :: "real \<Rightarrow> lfoparams \<Rightarrow> bool" where
  "tri_inv k lp \<longleftrightarrow>
     lfo_type lp = TRI \<and> ktri lp = k \<and>
     (trisign lp = 1 \<and> - k \<le> trilfo lp \<and> trilfo lp < 1
      \<or> trisign lp = - 1 \<and> 0 \<le> trilfo lp \<and> trilfo lp \<le> 1 + k)"

definition exp_inv :: "real \<Rightarrow> real \<Rightarrow> real \<Rightarrow> lfoparams \<Rightarrow> bool" where
  "exp_inv ke m M lp \<longleftrightarrow>
     lfo_type lp = EXP \<and> exp_ik lp = ke \<and> exp_k lp = 1 / ke \<and> exp_min lp = m \<and> exp_max lp = M \<and>
     (exp_x lp = 1 / ke \<and> m * ke \<le> exp_sv lp \<and> exp_sv lp < M
      \<or> exp_x lp = ke \<and> m \<le> exp_sv lp \<and> exp_sv lp \<le> M / ke)"

definition rlx_inv :: "real \<Rightarrow> real \<Rightarrow> lfoparams \<Rightarrow> bool" where
  "rlx_inv kr ie lp \<longleftrightarrow>
     lfo_type lp = RELAX \<and> rlx_k lp = kr \<and> rlx_ik lp = 1 - kr \<and>
     rlx_max lp = ie \<and> rlx_min lp = 1 - ie \<and>
     (rlx_sign lp = ie \<and> - ((ie - 1) * (1 - kr)) \<le> rlx_lfo lp \<and> rlx_lfo lp < 1
      \<or> rlx_sign lp = 1 - ie \<and> 0 \<le> rlx_lfo lp \<and> rlx_lfo lp \<le> 1 + (ie - 1) * (1 - kr))"

definition sine_inv :: "lfo_type_t \<Rightarrow> real \<Rightarrow> lfoparams \<Rightarrow> bool" where
  "sine_inv t k lp \<longleftrightarrow>
     lfo_type lp = t \<and> ksin lp = k \<and>
     (sin_part lp)\<^sup>2 + (cos_part lp)\<^sup>2 + k * sin_part lp * cos_part lp \<le> 1 + k / 2"

section \<open>render.cpp\<close>

text \<open>The global variables of \<open>render.cpp\<close> and the two function-local statics of
  \<open>render\<close>, which keep their values between calls. \<open>ledPin\<close> is the level last written to
  the LED pin with \<open>digitalWrite\<close> (\<open>True\<close> for \<open>HIGH\<close>).\<close>

record looper =
  gAudioBuffer :: "real list"
  gBufferSize :: int
  gWritePointer :: int
  gReadPointer :: int
  gAudioFramesPerAnalogFrame :: uint
  readIndex :: real
  gRecording :: bool
  gPlaying :: bool
  gClearedOnce :: bool
  gPlaybackSpeed :: real
  localLastButtonState :: int
  localLastClearButtonState :: int
  delayEffect :: DelayEffect
  gLFO :: lfoparams
  ledPin :: bool

text \<open>What one iteration of the loop of \<open>render\<close> reads from the context: the frame
  number \<open>n\<close>, the four values \<open>analogRead\<close> returns for it (read on a control tick only),
  the audio input and the two buttons.\<close>

record frame =
  frame_n :: uint
  analogMix :: real
  analogFb :: real
  speedVal :: real
  lfoDepth :: real
  audio_in :: real
  buttonState :: int
  clearButtonState :: int

text \<open>Lines 102 to 142: the control tick. The literals \<open>0.1f\<close>, \<open>1.9f\<close> and \<open>0.01f\<close> are
  the single-precision values nearest to 0.1, 1.9 and 0.01.\<close>

definition render_control :: "looper \<Rightarrow> frame \<Rightarrow> fault + looper" where
  "render_control s f =
     (if gAudioFramesPerAnalogFrame s \<noteq> 0 \<and> frame_n f mod gAudioFramesPerAnalogFrame s = 0
      then
        let de1 = setMix (delayEffect s) (analogMix f);
            de2 = setFeedback de1 (analogFb f);
            speed = to_float (- 2 + to_float (speedVal f * 4));
            depth0 = lfoDepth f;
            depth1 = (if depth0 < 0 then 0 else depth0);
            depth2 = (if depth1 > 1 then 1 else depth1);
            (lfoVal, lp') = run_lfo (gLFO s);
            md = to_float (to_float (lfoVal - 1 / 2) * 2);
            baseDelaySec = to_float (1 / 10);
            maxDelta = to_float (19 / 10);
            offset = to_float (to_float (md * maxDelta) * depth2);
            t0 = to_float (baseDelaySec + offset);
            t1 = (if t0 < to_float (1 / 100) then to_float (1 / 100) else t0);
            t2 = (if t1 > 2 then 2 else t1)
        in bind (setDelayTime de2 t2) (\<lambda>de3.
             Inr (s\<lparr>delayEffect := de3, gPlaybackSpeed := speed, gLFO := lp'\<rparr>))
      else Inr s)"

text \<open>Lines 152 to 168: the record/play button.\<close>

definition render_toggle :: "looper \<Rightarrow> frame \<Rightarrow> looper" where
  "render_toggle s f =
     (let s1 = (if buttonState f = 1 \<and> localLastButtonState s = 0
                then (if gRecording s
                      then s\<lparr>gRecording := False, gPlaying := True, ledPin := False\<rparr>
                      else s\<lparr>gRecording := True, gPlaying := True, ledPin := True\<rparr>)
                else s)
      in s1\<lparr>localLastButtonState := buttonState f\<rparr>)"

text \<open>Lines 171 to 190: the clear button.\<close>

definition render_clear :: "looper \<Rightarrow> frame \<Rightarrow> looper" where
  "render_clear s f =
     (let s1 = (if clearButtonState f = 1 \<and> localLastClearButtonState s = 0
                then (if \<not> gClearedOnce s
                      then s\<lparr>gAudioBuffer := replicate (length (gAudioBuffer s)) 0,
                             gWritePointer := 0, gReadPointer := 0, readIndex := 0,
                             gRecording := False, gPlaying := False, ledPin := False,
                             gClearedOnce := True\<rparr>
                      else s)
                else s);
          s2 = (if clearButtonState f = 0 \<and> localLastClearButtonState s1 = 1
                then s1\<lparr>gClearedOnce := False\<rparr>
                else s1)
      in s2\<lparr>localLastClearButtonState := clearButtonState f\<rparr>)"

text \<open>Lines 200 and 201, the spec's \<open>recordAdd\<close>: the sample, attenuated, is added into
  the slot at the write pointer, and the write pointer moves on.\<close>

definition recordAdd :: "looper \<Rightarrow> real \<Rightarrow> fault + looper" where
  "recordAdd s processedIn =
     bind (vec_at (gAudioBuffer s) (gWritePointer s)) (\<lambda>old.
     bind (int_add (gWritePointer s) 1) (\<lambda>w1.
     bind (int_rem w1 (gBufferSize s)) (\<lambda>w2.
       Inr (s\<lparr>gAudioBuffer := (gAudioBuffer s)[nat (gWritePointer s) := old + processedIn * (3 / 4)],
              gWritePointer := w2\<rparr>))))"

text \<open>Lines 196 to 202: the recording branch. \<open>out\<close> is the output accumulated so far.\<close>

definition render_record :: "looper \<Rightarrow> real \<Rightarrow> real \<Rightarrow> fault + (real \<times> looper)" where
  "render_record s inp out =
     (if gRecording s
      then bind (processSample (delayEffect s) inp) (\<lambda>(processedIn, de').
           bind (recordAdd (s\<lparr>delayEffect := de'\<rparr>) processedIn) (\<lambda>s'.
             Inr (out + processedIn, s')))
      else Inr (out, s))"

text \<open>Lines 207 to 215, the spec's \<open>playbackRead\<close>, in exact arithmetic: the sample
  under the read index, and the read index moved by the playback speed.\<close>

definition playbackRead :: "looper \<Rightarrow> fault + (real \<times> looper)" where
  "playbackRead s =
     bind (float_to_int (readIndex s)) (\<lambda>i.
     bind (int_rem i (gBufferSize s)) (\<lambda>j.
     bind (vec_at (gAudioBuffer s) j) (\<lambda>playSample.
       let r1 = readIndex s + gPlaybackSpeed s;
           r2 = (if r1 < 0 then r1 + of_int (gBufferSize s)
                 else if r1 \<ge> of_int (gBufferSize s) then r1 - of_int (gBufferSize s)
                 else r1)
       in Inr (playSample, s\<lparr>readIndex := r2\<rparr>))))"

text \<open>The same lines with the result of every floating-point operation (the sum, the
  conversion of \<open>gBufferSize\<close>, the addition and the subtraction) rounded by \<open>rnd\<close>. With
  \<open>to_float\<close> for \<open>rnd\<close> this is the code, in single precision; with the identity it is
  \<open>playbackRead\<close>, the same lines in exact arithmetic.\<close>

definition playbackRead_float :: "(real \<Rightarrow> real) \<Rightarrow> looper \<Rightarrow> fault + (real \<times> looper)" where
  "playbackRead_float rnd s =
     bind (float_to_int (readIndex s)) (\<lambda>i.
     bind (int_rem i (gBufferSize s)) (\<lambda>j.
     bind (vec_at (gAudioBuffer s) j) (\<lambda>playSample.
       let size = rnd (of_int (gBufferSize s));
           r1 = rnd (readIndex s + gPlaybackSpeed s);
           r2 = (if r1 < 0 then rnd (r1 + size)
                 else if r1 \<ge> size then rnd (r1 - size)
                 else r1)
       in Inr (playSample, s\<lparr>readIndex := r2\<rparr>))))"

text \<open>What the bounds of the read index need of a rounding: it is monotone, and exact at
  six whole numbers around 0 and the buffer size.\<close>

definition rounds_like_float :: "(real \<Rightarrow> real) \<Rightarrow> int \<Rightarrow> bool" where
  "rounds_like_float rnd n \<longleftrightarrow>
     mono rnd \<and> rnd (- 2) = - 2 \<and> rnd 0 = 0 \<and> rnd 2 = 2 \<and>
     rnd (of_int n - 2) = of_int n - 2 \<and> rnd (of_int n) = of_int n \<and>
     rnd (of_int n + 2) = of_int n + 2"

text \<open>Lines 205 to 216: the playing branch.\<close>

definition render_play :: "looper \<Rightarrow> real \<Rightarrow> fault + (real \<times> looper)" where
  "render_play s out =
     (if gPlaying s
      then bind (playbackRead_float to_float s) (\<lambda>(playSample, s'). Inr (out + playSample, s'))
      else Inr (out, s))"

text \<open>One iteration of the loop of \<open>render\<close>: the value written to every output channel
  and the new state.\<close>

definition render_frame :: "looper \<Rightarrow> frame \<Rightarrow> fault + (real \<times> looper)" where
  "render_frame s f =
     bind (render_control s f) (\<lambda>s1.
       let s2 = render_toggle s1 f;
           s3 = render_clear s2 f
       in bind (render_record s3 (audio_in f) 0) (\<lambda>(out1, s4).
            render_play s4 out1))"


text \<open>The state when \<open>setup\<close> has run: the initialisers of the globals (the delay line
  constructed with \<open>0.5f\<close> and \<open>0.7f\<close>), the buffer of
  \<open>gBufferSize\<close> zeros, and the oscillator at 0.1 Hz set to \<open>SINE\<close>. The arguments are the
  context's \<open>audioSampleRate\<close>, \<open>audioFrames\<close> and \<open>analogFrames\<close>. The LED pin, not yet
  written, is taken as \<open>LOW\<close>.\<close>

definition setup_looper :: "real \<Rightarrow> uint \<Rightarrow> uint \<Rightarrow> fault + looper" where
  "setup_looper audioSampleRate audioFrames analogFrames =
     bind (DelayEffect_new 44100 (1 / 2) (to_float (7 / 10)) 44100) (\<lambda>de.
     bind (init_lfo (1 / 10) audioSampleRate 0) (\<lambda>lp.
       Inr \<lparr>gAudioBuffer = replicate (nat (44100 * 20)) 0,
            gBufferSize = 44100 * 20,
            gWritePointer = 0,
            gReadPointer = 0,
            gAudioFramesPerAnalogFrame =
              (if analogFrames \<noteq> 0 then audioFrames div analogFrames else 0),
            readIndex = 0,
            gRecording = False,
            gPlaying = False,
            gClearedOnce = False,
            gPlaybackSpeed = 1,
            localLastButtonState = 0,
            localLastClearButtonState = 0,
            delayEffect = de,
            gLFO = set_lfo_type lp SINE,
            ledPin = False\<rparr>))"

text \<open>Calls of \<open>recordAdd\<close>, one after the other.\<close>

fun recordAdd_list :: "looper \<Rightarrow> real list \<Rightarrow> fault + looper" where
  "recordAdd_list s [] = Inr s"
| "recordAdd_list s (x # xs) = bind (recordAdd s x) (\<lambda>s'. recordAdd_list s' xs)"






text \<open>The looper buffer as the loop keeps it: \<open>gBufferSize\<close> slots, at least two (the read
  index moves by up to 2 and is brought back by one addition or subtraction of the size),
  the write pointer an index of the buffer and the read index in [0, size).\<close>

definition wf_buffer :: "looper \<Rightarrow> bool" where
  "wf_buffer s \<longleftrightarrow>
     2 \<le> gBufferSize s \<and> gBufferSize s \<le> INT_MAX \<and>
     length (gAudioBuffer s) = nat (gBufferSize s) \<and>
     0 \<le> gWritePointer s \<and> gWritePointer s < gBufferSize s \<and>
     0 \<le> readIndex s \<and> readIndex s < of_int (gBufferSize s)"

text \<open>The whole state as the loop keeps it: the buffer has \<open>gBufferSize\<close> slots, from 2
  to 2^24 - 2 (single precision then holds the size and the whole numbers within 2 of
  it), the write pointer is one of them and the read index is in [0, size]: a rounded
  sum can reach the size itself, which the read takes modulo the size. The playback
  speed is in [-2, 2], the delay line is well formed, and two seconds at its sample rate
  fit an \<open>unsigned int\<close>.\<close>

definition wf_looper :: "looper \<Rightarrow> bool" where
  "wf_looper s \<longleftrightarrow>
     2 \<le> gBufferSize s \<and> gBufferSize s \<le> 16777214 \<and>
     length (gAudioBuffer s) = nat (gBufferSize s) \<and>
     0 \<le> gWritePointer s \<and> gWritePointer s < gBufferSize s \<and>
     0 \<le> readIndex s \<and> readIndex s \<le> of_int (gBufferSize s) \<and>
     - 2 \<le> gPlaybackSpeed s \<and> gPlaybackSpeed s \<le> 2 \<and>
     wf_delay (delayEffect s) \<and> unat (sampleRate (delayEffect s)) \<le> 2 ^ 30"


section \<open>States for the worked examples\<close>

text \<open>A delay line of four slots in the middle of a run: the smoothed delay of the next
  sample is 3/2, so the read position falls between two slots and wraps.\<close>

definition delay4 :: DelayEffect where
  "delay4 = \<lparr>sampleRate = 4, bufferSize = 4, writePointer = 1,
              currentDelayTimeInSamples = 1, targetDelayTimeInSamples = 2,
              timeSmoothingFactor = 1 / 2, feedback = 1 / 2, mix = 1 / 2,
              delayBuffer = [1, 2, 3, 4]\<rparr>"

text \<open>The oscillator block \<open>init_lfo\<close> returns for 1 Hz at a sample rate of 8 Hz and
  phase 0.\<close>

definition lfo8 :: lfoparams where
  "lfo8 = \<lparr>startup_delay = 0,
            it_k = 1 / 2, k_new = 1 / 2, nk = - 1 / 2, nk_new = - 1 / 2,
            psign = 1 / 4, psign_new = 1 / 4, nsign = - 1 / 4, nsign_new = - 1 / 4,
            sign = 1 / 4, sign_new = 1 / 4, lfo = 0, it_x = 0,
            ktri = 1 / 4, trisign = 1, trilfo = 0,
            ksin = pi / 4, sin_part = 0, cos_part = 1,
            rlx_k = exp (- 1 / 4), rlx_ik = 1 - exp (- 1 / 4),
            rlx_sign = 1 / (1 - 1 / exp 1), rlx_max = 1 / (1 - 1 / exp 1),
            rlx_min = 1 - 1 / (1 - 1 / exp 1), rlx_lfo = 0,
            exp_ik = exp (- 13133 / 40000), exp_k = 1 / exp (- 13133 / 40000),
            exp_x = exp (- 13133 / 40000),
            exp_min = 1 / exp 1, exp_max = 1 + 1 / exp 1, exp_sv = 1 / exp 1,
            current_rate = 1, lfo_type = INT_TRI\<rparr>"

text \<open>A looper of four slots (the size of the spec's concrete scenario) in the middle of
  an overdub: recording and playing, the LED on, both buttons' last states as after a
  press of record and no press of clear.\<close>

definition looper4 :: looper where
  "looper4 = \<lparr>gAudioBuffer = [1, 2, 3, 4], gBufferSize = 4, gWritePointer = 2,
               gReadPointer = 0, gAudioFramesPerAnalogFrame = 2, readIndex = 3 / 2,
               gRecording = True, gPlaying = True, gClearedOnce = False,
               gPlaybackSpeed = 1, localLastButtonState = 1,
               localLastClearButtonState = 0, delayEffect = delay4, gLFO = lfo8,
               ledPin = True\<rparr>"

text \<open>The global \<open>delayEffect\<close> of \<open>render.cpp\<close> as its constructor leaves it:
  \<open>DelayEffect delayEffect(44100, 0.5f, 0.7f, 44100)\<close>.\<close>

definition delay44100 :: DelayEffect where
  "delay44100 = \<lparr>sampleRate = 44100, bufferSize = 44100, writePointer = 0,
                  currentDelayTimeInSamples = 22050, targetDelayTimeInSamples = 22050,
                  timeSmoothingFactor = to_float (1 / 100), feedback = to_float (7 / 10),
                  mix = 1 / 2, delayBuffer = replicate 44100 0\<rparr>"

text \<open>A delay line of 2^24 + 2 slots with the write pointer at its last slot, 2^24 + 1,
  which single precision does not hold. Only slot 2^24 is not zero.\<close>

definition delay_2_24 :: DelayEffect where
  "delay_2_24 = \<lparr>sampleRate = 44100, bufferSize = 16777218, writePointer = 16777217,
                  currentDelayTimeInSamples = 0, targetDelayTimeInSamples = 0,
                  timeSmoothingFactor = to_float (1 / 100), feedback = 1 / 2, mix = 1,
                  delayBuffer = (replicate 16777218 0)[16777216 := 1]\<rparr>"

text \<open>The oscillator block of the program: \<open>init_lfo(gLFO, 0.1f, fs, 0.0f)\<close> at a sample
  rate of 44100 Hz.\<close>

definition lfo44100 :: lfoparams where
  "lfo44100 = \<lparr>startup_delay = 0,
            it_k = 1 / 110250, k_new = 1 / 110250, nk = - 1 / 110250, nk_new = - 1 / 110250,
            psign = 1 / 12155062500, psign_new = 1 / 12155062500,
            nsign = - 1 / 12155062500, nsign_new = - 1 / 12155062500,
            sign = 1 / 12155062500, sign_new = 1 / 12155062500, lfo = 0, it_x = 0,
            ktri = 1 / 220500, trisign = 1, trilfo = 0,
            ksin = pi / 220500, sin_part = 0, cos_part = 1,
            rlx_k = exp (- 1 / 220500), rlx_ik = 1 - exp (- 1 / 220500),
            rlx_sign = 1 / (1 - 1 / exp 1), rlx_max = 1 / (1 - 1 / exp 1),
            rlx_min = 1 - 1 / (1 - 1 / exp 1), rlx_lfo = 0,
            exp_ik = exp (- 13133 / 2205000000), exp_k = 1 / exp (- 13133 / 2205000000),
            exp_x = exp (- 13133 / 2205000000),
            exp_min = 1 / exp 1, exp_max = 1 + 1 / exp 1, exp_sv = 1 / exp 1,
            current_rate = 1 / 10, lfo_type = INT_TRI\<rparr>"

text \<open>The program's looper after \<open>setup\<close>, a press of record and a control tick with the
  speed knob one step of a 16-bit converter below its centre: the playback speed is
  \<open>-2 + 4 * (32767 / 65536) = -2^-14\<close>.\<close>

definition looper882000 :: looper where
  "looper882000 = \<lparr>gAudioBuffer = replicate 882000 0, gBufferSize = 882000,
                    gWritePointer = 0, gReadPointer = 0, gAudioFramesPerAnalogFrame = 2,
                    readIndex = 0, gRecording = True, gPlaying = True,
                    gClearedOnce = False, gPlaybackSpeed = - (1 / 16384),
                    localLastButtonState = 1, localLastClearButtonState = 0,
                    delayEffect = delay44100, gLFO = set_lfo_type lfo44100 SINE,
                    ledPin = True\<rparr>"

section \<open>Basic facts\<close>

lemma bind_Inr [simp]: "bind (Inr x) f = f x"
  by (simp add: bind_def)

lemma bind_Inl [simp]: "bind (Inl e) f = Inl e"
  by (simp add: bind_def)

lemma replicate4: "replicate 4 x = [x, x, x, x]"
  by (simp add: numeral_eq_Suc)

lemma lfo8_init: "init_lfo 1 8 0 = Inr lfo8"
  by (simp add: init_lfo_def Let_def float_to_int_def trunc_def INT_MIN_def INT_MAX_def
      M_E_def M_PI_def lfo8_def)

lemma vec_at_nat: "i < length v \<Longrightarrow> vec_at v (int i) = Inr (v ! i)"
  by (simp add: vec_at_def)

section \<open>Single precision\<close>

lemma round_even_cases: "round_even x = \<lfloor>x\<rfloor> \<or> round_even x = \<lfloor>x\<rfloor> + 1"
  by (simp add: round_even_def)

lemma round_even_int [simp]: "round_even (of_int k) = k"
  by (simp add: round_even_def)

lemma round_even_numeral [simp]: "round_even (numeral n) = numeral n"
  by (simp add: round_even_def)

lemma round_even_0 [simp]: "round_even 0 = 0"
  by (simp add: round_even_def)

lemma round_even_mono:
  assumes "x \<le> y"
  shows "round_even x \<le> round_even y"
proof (cases "\<lfloor>x\<rfloor> < \<lfloor>y\<rfloor>")
  case True
  have "round_even x \<le> \<lfloor>x\<rfloor> + 1" using round_even_cases [of x] by auto
  also have "\<dots> \<le> \<lfloor>y\<rfloor>" using True by simp
  also have "\<dots> \<le> round_even y" using round_even_cases [of y] by auto
  finally show ?thesis .
next
  case False
  moreover have "\<lfloor>x\<rfloor> \<le> \<lfloor>y\<rfloor>" using assms by (rule floor_mono)
  ultimately have e: "\<lfloor>y\<rfloor> = \<lfloor>x\<rfloor>" by simp
  have "x - of_int \<lfloor>x\<rfloor> \<le> y - of_int \<lfloor>x\<rfloor>" using assms by simp
  then show ?thesis unfolding round_even_def e by auto
qed

lemma round_even_minus: "round_even (- x) = - round_even x"
proof (cases "x = of_int \<lfloor>x\<rfloor>")
  case True
  then obtain k where "x = of_int k" ..
  then show ?thesis by (simp flip: of_int_minus)
next
  case False
  then have c: "\<lceil>x\<rceil> = \<lfloor>x\<rfloor> + 1" by (simp add: ceiling_altdef)
  have f: "\<lfloor>- x\<rfloor> = - \<lfloor>x\<rfloor> - 1" using c by (simp add: ceiling_def)
  have fr: "- x - of_int (- \<lfloor>x\<rfloor> - 1) = 1 - (x - of_int \<lfloor>x\<rfloor>)" by simp
  show ?thesis
    unfolding round_even_def [of "- x"] f fr
    by (simp add: round_even_def)
qed

lemma floor_log2:
  assumes "0 < x" "2 powr of_int e \<le> x" "x < 2 powr (of_int e + 1)"
  shows "\<lfloor>log 2 x\<rfloor> = e"
proof -
  have "of_int e \<le> log 2 x" using assms(1,2) by (simp add: le_log_iff)
  moreover have "log 2 x < of_int e + 1" using assms(1,3) by (simp add: log_less_iff)
  ultimately show ?thesis by (simp add: floor_eq_iff)
qed

lemma binade:
  assumes "0 < x"
  shows "2 powr of_int \<lfloor>log 2 x\<rfloor> \<le> x \<and> x < 2 powr (of_int \<lfloor>log 2 x\<rfloor> + 1)"
proof -
  have "of_int \<lfloor>log 2 x\<rfloor> \<le> log 2 x" by simp
  then have a: "2 powr of_int \<lfloor>log 2 x\<rfloor> \<le> x"
    using le_log_iff [of 2 x "of_int \<lfloor>log 2 x\<rfloor>"] assms by simp
  have "log 2 x < of_int \<lfloor>log 2 x\<rfloor> + 1" by linarith
  then have "x < 2 powr (of_int \<lfloor>log 2 x\<rfloor> + 1)"
    using log_less_iff [of 2 x "of_int \<lfloor>log 2 x\<rfloor> + 1"] assms by simp
  with a show ?thesis by simp
qed

lemma to_float_ulp:
  "x \<noteq> 0 \<Longrightarrow> to_float x = of_int (round_even (x / 2 powr (of_int (ulp_exp x) - 23))) * 2 powr (of_int (ulp_exp x) - 23)"
  by (simp add: to_float_def Let_def)

lemma to_float_0 [simp]: "to_float 0 = 0"
  by (simp add: to_float_def)

lemma to_float_binade:
  assumes "- 126 \<le> e" "2 powr of_int e \<le> \<bar>x\<bar>" "\<bar>x\<bar> < 2 powr (of_int e + 1)"
  shows "to_float x = of_int (round_even (x / 2 powr (of_int e - 23))) * 2 powr (of_int e - 23)"
proof -
  have "0 < 2 powr (of_int e :: real)" by simp
  with assms(2) have p: "0 < \<bar>x\<bar>" by linarith
  then have "x \<noteq> 0" by simp
  moreover have "\<lfloor>log 2 \<bar>x\<bar>\<rfloor> = e" using floor_log2 [OF p assms(2,3)] .
  ultimately show ?thesis using assms(1) by (simp add: to_float_def ulp_exp_def Let_def max_def)
qed

lemma to_float_minus: "to_float (- x) = - to_float x"
  by (simp add: to_float_def ulp_exp_def Let_def round_even_minus)

lemma ulp_scale:
  "2 powr (of_int e - 23) * 8388608 = 2 powr (of_int e :: real)"
  "2 powr (of_int e - 23) * 16777216 = 2 powr (of_int e + 1 :: real)"
  by (simp_all add: powr_diff powr_add)

lemma to_float_upper:
  assumes "0 < x"
  shows "0 \<le> to_float x \<and> to_float x \<le> 2 powr (of_int (ulp_exp x) + 1)"
proof -
  define e where "e = ulp_exp x"
  define u :: real where "u = 2 powr (of_int e - 23)"
  have u: "0 < u" by (simp add: u_def)
  have "\<lfloor>log 2 x\<rfloor> \<le> e" using assms by (simp add: e_def ulp_exp_def)
  then have "(of_int \<lfloor>log 2 x\<rfloor> + 1 :: real) \<le> of_int e + 1" by linarith
  then have "(2 :: real) powr (of_int \<lfloor>log 2 x\<rfloor> + 1) \<le> 2 powr (of_int e + 1)"
    by (simp only: powr_le_cancel_iff)
  with binade [OF assms] have b: "x < 2 powr (of_int e + 1)" by linarith
  have "x \<le> u * 16777216" using b ulp_scale(2) [of e] by (simp add: u_def)
  then have hi: "x / u \<le> of_int 16777216" using u by (simp add: pos_divide_le_eq mult.commute)
  have "round_even (x / u) \<le> 16777216" using round_even_mono [OF hi] by simp
  then have "of_int (round_even (x / u)) \<le> (16777216 :: real)" by linarith
  then have "of_int (round_even (x / u)) * u \<le> u * 16777216"
    using u by (simp add: mult.commute)
  then have r2: "of_int (round_even (x / u)) * u \<le> 2 powr (of_int e + 1)"
    using ulp_scale(2) [of e] by (simp add: u_def)
  have "0 \<le> x / u" using assms u by simp
  from round_even_mono [OF this] have "0 \<le> round_even (x / u)" by simp
  then have r1: "0 \<le> of_int (round_even (x / u)) * u" using u by simp
  have "to_float x = of_int (round_even (x / u)) * u"
    using assms to_float_ulp [of x] by (simp add: e_def u_def)
  then show ?thesis using r1 r2 by (simp add: e_def)
qed

lemma to_float_lower:
  assumes "0 < x" "- 126 \<le> \<lfloor>log 2 x\<rfloor>"
  shows "2 powr of_int (ulp_exp x) \<le> to_float x"
proof -
  define e where "e = ulp_exp x"
  define u :: real where "u = 2 powr (of_int e - 23)"
  have u: "0 < u" by (simp add: u_def)
  have e: "e = \<lfloor>log 2 x\<rfloor>" using assms by (simp add: e_def ulp_exp_def)
  have b: "2 powr of_int e \<le> x" using binade [OF assms(1)] by (simp add: e)
  have "u * 8388608 \<le> x" using b ulp_scale(1) [of e] by (simp add: u_def)
  then have lo: "of_int 8388608 \<le> x / u" using u by (simp add: pos_le_divide_eq mult.commute)
  have "8388608 \<le> round_even (x / u)" using round_even_mono [OF lo] by simp
  then have "(8388608 :: real) \<le> of_int (round_even (x / u))" by linarith
  then have "u * 8388608 \<le> of_int (round_even (x / u)) * u"
    using u by (simp add: mult.commute)
  then have r1: "2 powr of_int e \<le> of_int (round_even (x / u)) * u"
    using ulp_scale(1) [of e] by (simp add: u_def)
  have "to_float x = of_int (round_even (x / u)) * u"
    using assms to_float_ulp [of x] by (simp add: e_def u_def)
  then show ?thesis using r1 by (simp add: e_def)
qed

lemma to_float_nonneg: "0 \<le> x \<Longrightarrow> 0 \<le> to_float x"
  using to_float_upper [of x] by (cases "x = 0") auto

lemma to_float_mono_pos:
  assumes "0 < x" "x \<le> y"
  shows "to_float x \<le> to_float y"
proof -
  have y: "0 < y" using assms by linarith
  have "\<lfloor>log 2 x\<rfloor> \<le> \<lfloor>log 2 y\<rfloor>"
    using assms y by (intro floor_mono) (simp add: log_le_cancel_iff)
  then have le: "ulp_exp x \<le> ulp_exp y" using assms(1) y by (simp add: ulp_exp_def)
  show ?thesis
  proof (cases "ulp_exp x = ulp_exp y")
    case True
    define u :: real where "u = 2 powr (of_int (ulp_exp y) - 23)"
    have u: "0 < u" by (simp add: u_def)
    have "x / u \<le> y / u" using assms(2) u by (simp add: divide_right_mono)
    then have "round_even (x / u) \<le> round_even (y / u)" by (rule round_even_mono)
    then have "(of_int (round_even (x / u)) :: real) \<le> of_int (round_even (y / u))" by simp
    then have "of_int (round_even (x / u)) * u \<le> of_int (round_even (y / u)) * u"
      using u by (simp only: mult_le_cancel_right_pos)
    then show ?thesis using assms(1) y True to_float_ulp [of x] to_float_ulp [of y] by (simp add: u_def)
  next
    case False
    with le have lt: "ulp_exp x + 1 \<le> ulp_exp y" by simp
    have "- 126 \<le> ulp_exp x" by (simp add: ulp_exp_def)
    with lt have "- 126 < ulp_exp y" by linarith
    then have ny: "- 126 \<le> \<lfloor>log 2 y\<rfloor>" using y by (simp add: ulp_exp_def max_def split: if_splits)
    from lt have "(of_int (ulp_exp x) + 1 :: real) \<le> of_int (ulp_exp y)" by linarith
    then have "(2 :: real) powr (of_int (ulp_exp x) + 1) \<le> 2 powr of_int (ulp_exp y)"
      by (simp only: powr_le_cancel_iff)
    with to_float_upper [OF assms(1)] to_float_lower [OF y ny]
    show ?thesis by linarith
  qed
qed

lemma to_float_mono: "mono to_float"
proof (rule monoI)
  fix x y :: real
  assume xy: "x \<le> y"
  consider "0 < x" | "x \<le> 0" "0 \<le> y" | "y < 0" by linarith
  then show "to_float x \<le> to_float y"
  proof cases
    case 1
    then show ?thesis using xy by (rule to_float_mono_pos)
  next
    case 2
    have "0 \<le> to_float (- x)" using 2(1) by (intro to_float_nonneg) simp
    then have "to_float x \<le> 0" by (simp add: to_float_minus)
    moreover have "0 \<le> to_float y" using 2(2) by (rule to_float_nonneg)
    ultimately show ?thesis by linarith
  next
    case 3
    have "to_float (- y) \<le> to_float (- x)" using 3 xy by (intro to_float_mono_pos) simp_all
    then show ?thesis by (simp add: to_float_minus)
  qed
qed

lemma to_float_le: "x \<le> y \<Longrightarrow> to_float x \<le> to_float y"
  using to_float_mono by (simp add: mono_def)

text \<open>The numbers single precision holds: a significand below 2^24 in magnitude times a
  power of two not below 2^-149.\<close>

lemma to_float_exact:
  assumes "\<bar>k\<bar> < 2 ^ 24" "- 149 \<le> j"
  shows "to_float (of_int k * 2 powr of_int j) = of_int k * 2 powr of_int j"
proof (cases "k = 0")
  case True
  then show ?thesis by simp
next
  case False
  define x :: real where "x = of_int k * 2 powr of_int j"
  define e where "e = ulp_exp x"
  have x0: "x \<noteq> 0" using False by (simp add: x_def)
  then have ax: "0 < \<bar>x\<bar>" by simp
  have "\<bar>x\<bar> = of_int \<bar>k\<bar> * 2 powr of_int j" by (simp add: x_def abs_mult)
  also have "\<dots> < 2 ^ 24 * 2 powr of_int j"
  proof -
    have "(of_int \<bar>k\<bar> :: real) < of_int (2 ^ 24)" using assms(1) by (simp only: of_int_less_iff)
    then show ?thesis by simp
  qed
  also have "\<dots> = 2 powr (of_int (j + 23) + 1)" by (simp add: powr_add)
  finally have "\<bar>x\<bar> < 2 powr (of_int (j + 23) + 1)" .
  then have "log 2 \<bar>x\<bar> < of_int (j + 23) + 1"
    using log_less_iff [of 2 "\<bar>x\<bar>" "of_int (j + 23) + 1"] ax by simp
  then have "\<lfloor>log 2 \<bar>x\<bar>\<rfloor> < j + 23 + 1" by (simp add: floor_less_iff)
  then have ej: "e \<le> j + 23" using assms(2) by (simp add: e_def ulp_exp_def)
  define m where "m = nat (j + 23 - e)"
  have m: "of_int j - (of_int e - 23) = (real m)" using ej by (simp add: m_def)
  have "x / 2 powr (of_int e - 23) = of_int k * 2 powr (of_int j - (of_int e - 23))"
    by (simp add: x_def powr_diff)
  also have "\<dots> = of_int k * 2 ^ m" unfolding m by (simp add: powr_realpow)
  also have "\<dots> = of_int (k * 2 ^ m)" by simp
  finally have q: "x / 2 powr (of_int e - 23) = of_int (k * 2 ^ m)" .
  have "to_float x = of_int (round_even (x / 2 powr (of_int e - 23))) * 2 powr (of_int e - 23)"
    using to_float_ulp [OF x0] by (simp add: e_def)
  also have "\<dots> = x / 2 powr (of_int e - 23) * 2 powr (of_int e - 23)"
    unfolding q round_even_int ..
  also have "\<dots> = x" by simp
  finally show ?thesis by (simp add: x_def)
qed

lemma to_float_int: "\<bar>k\<bar> \<le> 2 ^ 24 \<Longrightarrow> to_float (of_int k) = of_int k"
proof -
  assume a: "\<bar>k\<bar> \<le> 2 ^ 24"
  show ?thesis
  proof (cases "\<bar>k\<bar> < 2 ^ 24")
    case True
    from to_float_exact [OF True, of 0] show ?thesis by simp
  next
    case False
    with a have "k = 2 ^ 24 \<or> k = - (2 ^ 24)" by linarith
    moreover have "to_float (of_int 1 * 2 powr of_int 24) = of_int 1 * 2 powr of_int 24"
      by (rule to_float_exact) simp_all
    then have "to_float 16777216 = 16777216" by simp
    ultimately show ?thesis using to_float_minus [of 16777216] by auto
  qed
qed

lemma to_float_nat: "n \<le> 2 ^ 24 \<Longrightarrow> to_float (real n) = real n"
  using to_float_int [of "int n"] by simp

lemma to_float_even: "\<bar>k\<bar> < 2 ^ 24 \<Longrightarrow> to_float (2 * of_int k) = 2 * of_int k"
  using to_float_exact [of k 1] by (simp add: mult.commute)

lemma to_float_idem [simp]: "to_float (to_float x) = to_float x"
proof (cases "x = 0")
  case True
  then show ?thesis by simp
next
  case False
  define e where "e = ulp_exp x"
  define K where "K = round_even (x / 2 powr (of_int e - 23))"
  have tf: "to_float x = of_int K * 2 powr of_int (e - 23)"
    using to_float_ulp [OF False] by (simp add: e_def K_def)
  have e: "- 149 \<le> e - 23" by (simp add: e_def ulp_exp_def)
  have K: "\<bar>K\<bar> \<le> 2 ^ 24"
  proof -
    have "0 < \<bar>x\<bar>" using False by simp
    from to_float_upper [OF this]
    have "to_float \<bar>x\<bar> \<le> 2 powr (of_int (ulp_exp \<bar>x\<bar>) + 1)" by simp
    moreover have "to_float \<bar>x\<bar> = \<bar>to_float x\<bar>"
      using to_float_minus [of x] to_float_nonneg [of x] to_float_nonneg [of "- x"]
      by (cases "0 \<le> x") (auto simp: abs_if)
    moreover have "ulp_exp \<bar>x\<bar> = e" by (simp add: e_def ulp_exp_def)
    ultimately have "\<bar>of_int K * 2 powr of_int (e - 23)\<bar> \<le> (2 :: real) powr (of_int e + 1)"
      using tf by simp
    then have "\<bar>of_int K :: real\<bar> * 2 powr (of_int e - 23) \<le> 2 powr (of_int e - 23) * 16777216"
      using ulp_scale(2) [of e] by (simp add: abs_mult)
    then have "\<bar>of_int K :: real\<bar> \<le> 16777216" by (simp add: mult.commute)
    then have "(of_int \<bar>K\<bar> :: real) \<le> of_int 16777216" by simp
    then have "\<bar>K\<bar> \<le> 16777216" by (simp only: of_int_le_iff)
    then show ?thesis by simp
  qed
  show ?thesis
  proof (cases "\<bar>K\<bar> < 2 ^ 24")
    case True
    show ?thesis unfolding tf by (rule to_float_exact [OF True e])
  next
    case False
    with K have c: "K = 2 ^ 24 \<or> K = - (2 ^ 24)" by linarith
    have p: "to_float (of_int 1 * 2 powr of_int (e + 1)) = of_int 1 * 2 powr of_int (e + 1)"
      by (rule to_float_exact) (use e in simp_all)
    have s: "(16777216 :: real) * 2 powr of_int (e - 23) = 2 powr of_int (e + 1)"
      using ulp_scale(2) [of e] by (simp add: mult.commute)
    from c show ?thesis
    proof
      assume "K = 2 ^ 24"
      then show ?thesis unfolding tf using p s by simp
    next
      assume "K = - (2 ^ 24)"
      then have "of_int K * 2 powr of_int (e - 23) = - ((2 :: real) powr of_int (e + 1))"
        using s by simp
      then show ?thesis unfolding tf using p by (simp add: to_float_minus)
    qed
  qed
qed

lemma to_float_half: "\<bar>k\<bar> < 2 ^ 24 \<Longrightarrow> to_float (of_int k / 2) = of_int k / 2"
  using to_float_exact [of k "- 1"] by (simp add: powr_neg_one)

lemma to_float_quarter: "\<bar>k\<bar> < 2 ^ 24 \<Longrightarrow> to_float (of_int k / 4) = of_int k / 4"
  using to_float_exact [of k "- 2"] by (simp add: powr_neg_numeral)

lemma to_float_1 [simp]: "to_float 1 = 1"
  using to_float_int [of 1] by simp

lemma to_float_unit: "0 \<le> x \<Longrightarrow> x \<le> 1 \<Longrightarrow> 0 \<le> to_float x \<and> to_float x \<le> 1"
  using to_float_le [of 0 x] to_float_le [of x 1] by simp

section \<open>The delay line\<close>

subsection \<open>The smoothed delay\<close>

lemma smoothing_range:
  assumes c: "to_float c = c" "0 \<le> c" "c \<le> 2 * M"
    and t: "to_float t = t" "0 \<le> t" "t \<le> M"
    and a: "0 \<le> a" "a \<le> 1"
    and m: "to_float (2 * M) = 2 * M"
  shows "0 \<le> to_float (c + to_float (a * to_float (t - c)))
         \<and> to_float (c + to_float (a * to_float (t - c))) \<le> 2 * M"
proof (cases "c \<le> t")
  case True
  define diff where "diff = to_float (t - c)"
  define p where "p = to_float (a * diff)"
  have "to_float 0 \<le> diff" unfolding diff_def using True by (intro to_float_le) simp
  then have d0: "0 \<le> diff" by simp
  have "diff \<le> to_float t" unfolding diff_def using c(2) by (intro to_float_le) simp
  then have d1: "diff \<le> t" by (simp add: t(1))
  have "to_float 0 \<le> p" unfolding p_def using a(1) d0 by (intro to_float_le) simp
  then have p0: "0 \<le> p" by simp
  have "a * diff \<le> 1 * diff" using a(2) d0 by (intro mult_right_mono) simp_all
  then have "p \<le> to_float diff" unfolding p_def by (intro to_float_le) simp
  then have p1: "p \<le> diff" by (simp add: diff_def)
  have "to_float 0 \<le> to_float (c + p)" using c(2) p0 by (intro to_float_le) simp
  then have r0: "0 \<le> to_float (c + p)" by simp
  have "c + p \<le> 2 * M" using True p1 d1 t(3) by linarith
  then have "to_float (c + p) \<le> to_float (2 * M)" by (rule to_float_le)
  then have r1: "to_float (c + p) \<le> 2 * M" by (simp add: m)
  show ?thesis using r0 r1 by (simp add: p_def diff_def)
next
  case False
  define diff where "diff = to_float (t - c)"
  define p where "p = to_float (a * diff)"
  have "diff \<le> to_float 0" unfolding diff_def using False by (intro to_float_le) simp
  then have d0: "diff \<le> 0" by simp
  have "to_float (- c) \<le> diff" unfolding diff_def using t(2) by (intro to_float_le) simp
  then have d1: "- c \<le> diff" by (simp add: to_float_minus c(1))
  have "a * diff \<le> 0" using a(1) d0 by (simp add: mult_nonneg_nonpos)
  then have "p \<le> to_float 0" unfolding p_def by (rule to_float_le)
  then have p0: "p \<le> 0" by simp
  have "1 * diff \<le> a * diff" using a(2) d0 by (intro mult_right_mono_neg) simp_all
  then have "to_float diff \<le> p" unfolding p_def by (intro to_float_le) simp
  then have p1: "diff \<le> p" by (simp add: diff_def)
  have "to_float 0 \<le> to_float (c + p)" using p1 d1 by (intro to_float_le) linarith
  then have r0: "0 \<le> to_float (c + p)" by simp
  have "to_float (c + p) \<le> to_float c" using p0 by (intro to_float_le) simp
  then have r1: "to_float (c + p) \<le> 2 * M" using c(1,3) by simp
  show ?thesis using r0 r1 by (simp add: p_def diff_def)
qed

subsection \<open>The read position\<close>

lemma wrap_down_range:
  fixes u :: real and n :: nat
  assumes "0 < n" "0 \<le> u" "u \<le> real n"
  shows "wrap_down u (real n) = Some (if u \<ge> real n then to_float (u - real n) else u)
         \<and> 0 \<le> (if u \<ge> real n then to_float (u - real n) else u)
         \<and> (if u \<ge> real n then to_float (u - real n) else u) < real n"
proof (cases "u \<ge> real n")
  case True
  with assms(3) have u: "u = real n" by simp
  have z: "wrap_down 0 (real n) = Some 0" using assms(1) by (subst wrap_down.simps) simp
  have "wrap_down u (real n) = Some 0"
    unfolding u by (subst wrap_down.simps) (simp add: z)
  then show ?thesis using u assms(1) by simp
next
  case False
  then have "wrap_down u (real n) = Some u" by (subst wrap_down.simps) simp
  then show ?thesis using False assms(2) by simp
qed

lemma wrap_up_range:
  fixes x :: real and n :: nat
  assumes n: "0 < n" "n \<le> 2 ^ 24" and x: "- 2 * (real n - 1) \<le> x" "x \<le> real n - 1"
  shows "wrap_up x (real n) =
           Some (let d1 = (if x < 0 then to_float (x + real n) else x)
                 in if d1 < 0 then to_float (d1 + real n) else d1)
         \<and> 0 \<le> (let d1 = (if x < 0 then to_float (x + real n) else x)
                 in if d1 < 0 then to_float (d1 + real n) else d1)
         \<and> (let d1 = (if x < 0 then to_float (x + real n) else x)
                 in if d1 < 0 then to_float (d1 + real n) else d1) \<le> real n"
proof (cases "x < 0")
  case False
  then have "wrap_up x (real n) = Some x" by (subst wrap_up.simps) simp
  then show ?thesis using False x(2) by (simp add: Let_def)
next
  case True
  define y where "y = to_float (x + real n)"
  have fn: "to_float (real n) = real n" using n(2) by (rule to_float_nat)
  have f2: "to_float 2 = 2" using to_float_int [of 2] by simp
  have "int n \<le> 16777216" "0 < int n" using n by simp_all
  then have "\<bar>2 - int n\<bar> \<le> 2 ^ 24" by simp
  then have "to_float (of_int (2 - int n)) = of_int (2 - int n)"
    by (rule to_float_int)
  then have f2n: "to_float (2 - real n) = 2 - real n" by simp
  have "to_float (2 - real n) \<le> y" unfolding y_def using x(1) by (intro to_float_le) simp
  then have y0: "2 - real n \<le> y" by (simp add: f2n)
  have "y \<le> to_float (real n)" unfolding y_def using True by (intro to_float_le) simp
  then have y1: "y \<le> real n" by (simp add: fn)
  have step1: "wrap_up x (real n) = wrap_up y (real n)"
    using True by (subst wrap_up.simps) (simp add: y_def)
  show ?thesis
  proof (cases "y < 0")
    case False
    then have "wrap_up y (real n) = Some y" by (subst wrap_up.simps) simp
    then show ?thesis using step1 True False y1 by (simp add: Let_def y_def)
  next
    case yneg: True
    define z where "z = to_float (y + real n)"
    have "to_float 2 \<le> z" unfolding z_def using y0 by (intro to_float_le) simp
    then have z0: "2 \<le> z" by (simp add: f2)
    have "z \<le> to_float (real n)" unfolding z_def using yneg by (intro to_float_le) simp
    then have z1: "z \<le> real n" by (simp add: fn)
    have "wrap_up y (real n) = wrap_up z (real n)"
      using yneg by (subst wrap_up.simps) (simp add: z_def)
    also have "\<dots> = Some z" using z0 by (subst wrap_up.simps) simp
    finally show ?thesis using step1 True yneg z0 z1 by (simp add: Let_def y_def z_def)
  qed
qed

subsection \<open>Unsigned and signed index arithmetic\<close>

lemma uint_small: "0 \<le> p \<Longrightarrow> p \<le> INT_MAX \<Longrightarrow> uint (word_of_int p :: uint) = p"
  by (simp add: uint_word_of_int INT_MAX_def)

lemma sint_small: "uint (w :: uint) \<le> INT_MAX \<Longrightarrow> sint w = uint w"
proof -
  assume "uint w \<le> INT_MAX"
  then have "uint w < 2 ^ 31" by (simp add: INT_MAX_def)
  moreover have "- (2 ^ 31) \<le> uint w"
    by (rule order_trans [of _ 0]) simp_all
  ultimately have "signed_take_bit 31 (uint w) = uint w"
    by (rule signed_take_bit_int_eq_self [rotated])
  then show ?thesis by (simp add: sint_uint)
qed

lemma next_pos_eq:
  assumes "i < unat n" "int (unat n) \<le> INT_MAX"
  shows "next_pos (int i) n = Inr (int ((i + 1) mod unat n))"
proof -
  have p1: "0 \<le> int i + 1" "int i + 1 \<le> INT_MAX" using assms by linarith+
  then have add: "int_add (int i) 1 = Inr (int i + 1)" by (simp add: int_add_def INT_MIN_def)
  have "0 < unat n" using assms(1) by linarith
  then have n0: "n \<noteq> 0" by (simp add: unat_gt_0)
  have un: "uint n = int (unat n)" by simp
  have "uint ((word_of_int (int i + 1) :: uint) mod n) = uint (word_of_int (int i + 1) :: uint) mod uint n"
    by (rule uint_mod_distrib)
  also have "\<dots> = (int i + 1) mod int (unat n)"
    by (simp only: uint_small [OF p1] un)
  finally have u: "uint ((word_of_int (int i + 1) :: uint) mod n) = (int i + 1) mod int (unat n)" .
  have "(int i + 1) mod int (unat n) < int (unat n)"
    by (rule pos_mod_bound) (use \<open>0 < unat n\<close> in linarith)
  then have "uint ((word_of_int (int i + 1) :: uint) mod n) \<le> INT_MAX" using u assms(2) by linarith
  then have "sint ((word_of_int (int i + 1) :: uint) mod n) = (int i + 1) mod int (unat n)"
    using u by (simp only: sint_small)
  also have "\<dots> = int ((i + 1) mod unat n)"
    by (simp only: zmod_int of_nat_add of_nat_1)
  finally have "sint ((word_of_int (int i + 1) :: uint) mod n) = int ((i + 1) mod unat n)" .
  then show ?thesis unfolding next_pos_def add bind_Inr using n0 by (simp only: if_False)
qed

lemma write_pointer_next:
  assumes "unat (w :: uint) < unat n"
  shows "unat ((w + 1) mod n) = (unat w + 1) mod unat n"
proof -
  have "unat n < 2 ^ 32" using unsigned_less [of n] by simp
  then have "unat w + unat (1 :: uint) < 2 ^ LENGTH(32)" using assms by simp
  then have "unat (w + 1) = unat w + 1" by (simp add: unat_add_lem [THEN iffD1])
  then show ?thesis by (simp add: unat_mod_distrib)
qed

subsection \<open>One call of processSample\<close>

lemma smoothed_delay_range:
  assumes "wf_delay d"
  shows "to_float (smoothed_delay d) = smoothed_delay d \<and> 0 \<le> smoothed_delay d
         \<and> smoothed_delay d \<le> 2 * (real (unat (bufferSize d)) - 1)"
proof -
  define n where "n = unat (bufferSize d)"
  from assms have n: "0 < n" "n \<le> 2 ^ 24" by (simp_all add: wf_delay_def n_def)
  have "int n \<le> 16777216" "0 < int n" using n by simp_all
  then have "\<bar>int n - 1\<bar> < 2 ^ 24" by simp
  from to_float_even [OF this] have m: "to_float (2 * (real n - 1)) = 2 * (real n - 1)" by simp
  have "0 \<le> smoothed_delay d \<and> smoothed_delay d \<le> 2 * (real n - 1)"
    unfolding smoothed_delay_def Let_def
    by (rule smoothing_range [OF _ _ _ _ _ _ _ _ m])
       (use assms in \<open>simp_all add: wf_delay_def n_def del: of_nat_unat\<close>)
  moreover have "to_float (smoothed_delay d) = smoothed_delay d"
    by (simp add: smoothed_delay_def Let_def)
  ultimately show ?thesis by (simp add: n_def del: of_nat_unat)
qed

lemma read_position_eq:
  assumes "wf_delay d"
  shows "let n = real (unat (bufferSize d));
             d0 = to_float (real (unat (writePointer d)) - smoothed_delay d);
             d1 = (if d0 < 0 then to_float (d0 + n) else d0);
             d2 = (if d1 < 0 then to_float (d1 + n) else d1);
             pos = (if d2 \<ge> n then to_float (d2 - n) else d2)
         in read_position d = Inr pos \<and> 0 \<le> pos \<and> pos < n"
proof -
  define n where "n = unat (bufferSize d)"
  define w where "w = unat (writePointer d)"
  define c where "c = smoothed_delay d"
  define d0 where "d0 = to_float (real w - c)"
  define d2 where "d2 = (let d1 = (if d0 < 0 then to_float (d0 + real n) else d0)
                          in if d1 < 0 then to_float (d1 + real n) else d1)"
  from assms have n: "0 < n" "n \<le> 2 ^ 24" and w: "w < n" by (simp_all add: wf_delay_def n_def w_def)
  have c: "0 \<le> c" "c \<le> 2 * (real n - 1)"
    using smoothed_delay_range [OF assms] by (simp_all add: c_def n_def del: of_nat_unat)
  have fn: "to_float (real n) = real n" using n(2) by (rule to_float_nat)
  have fw: "to_float (real w) = real w" using n(2) w by (intro to_float_nat) simp
  have "int n \<le> 16777216" "0 < int n" using n by simp_all
  then have k: "\<bar>int n - 1\<bar> < 2 ^ 24" "\<bar>int n - 1\<bar> \<le> 2 ^ 24" by simp_all
  from to_float_even [OF k(1)] have m: "to_float (2 * (real n - 1)) = 2 * (real n - 1)" by simp
  from to_float_int [OF k(2)] have m1: "to_float (real n - 1) = real n - 1" by simp
  have "to_float (- (2 * (real n - 1))) \<le> d0" unfolding d0_def using c(2) by (intro to_float_le) simp
  moreover have "to_float (- (2 * (real n - 1))) = - (2 * (real n - 1))"
    by (simp only: to_float_minus m)
  ultimately have lo: "- 2 * (real n - 1) \<le> d0" by linarith
  have "d0 \<le> to_float (real n - 1)" unfolding d0_def using c(1) w by (intro to_float_le) simp
  then have hi: "d0 \<le> real n - 1" by (simp add: m1)
  from wrap_up_range [OF n lo hi]
  have up: "wrap_up d0 (real n) = Some d2" "0 \<le> d2" "d2 \<le> real n"
    by (simp_all add: d2_def)
  note down = wrap_down_range [OF n(1) up(2,3)]
  have "read_position d = Inr (if d2 \<ge> real n then to_float (d2 - real n) else d2)"
    using up(1) down
    by (simp add: read_position_def Let_def fn fw loop_result_def
        n_def [symmetric] w_def [symmetric] c_def [symmetric] d0_def [symmetric] del: of_nat_unat)
  then show ?thesis
    using down unfolding Let_def d2_def d0_def c_def n_def w_def by simp
qed

lemma processSample_eq:
  assumes "wf_delay d"
  shows "processSample d x =
     (let n = unat (bufferSize d);
          cur = smoothed_delay d;
          d0 = to_float (real (unat (writePointer d)) - cur);
          d1 = (if d0 < 0 then to_float (d0 + real n) else d0);
          d2 = (if d1 < 0 then to_float (d1 + real n) else d1);
          pos = (if d2 \<ge> real n then to_float (d2 - real n) else d2);
          i = nat \<lfloor>pos\<rfloor>;
          frac = to_float (pos - real i);
          delayed = to_float (to_float (to_float (1 - frac) * delayBuffer d ! i)
                              + to_float (frac * delayBuffer d ! ((i + 1) mod n)))
      in Inr (to_float (to_float (to_float (1 - mix d) * x) + to_float (mix d * delayed)),
              d\<lparr>currentDelayTimeInSamples := cur,
                delayBuffer := (delayBuffer d)[unat (writePointer d) :=
                                  to_float (x + to_float (delayed * feedback d))],
                writePointer := (writePointer d + 1) mod bufferSize d\<rparr>))"
proof -
  define n where "n = unat (bufferSize d)"
  define pos where "pos =
     (let d0 = to_float (real (unat (writePointer d)) - smoothed_delay d);
          d1 = (if d0 < 0 then to_float (d0 + real n) else d0);
          d2 = (if d1 < 0 then to_float (d1 + real n) else d1)
      in if d2 \<ge> real n then to_float (d2 - real n) else d2)"
  define i where "i = nat \<lfloor>pos\<rfloor>"
  from assms have n: "0 < n" and nmax: "n \<le> 2 ^ 24" and len: "length (delayBuffer d) = n"
    and wp: "unat (writePointer d) < n"
    by (simp_all add: wf_delay_def n_def)
  have nint: "int n \<le> INT_MAX" using nmax by (simp add: INT_MAX_def)
  have rp: "read_position d = Inr pos" and range: "0 \<le> pos" "pos < real n"
    using read_position_eq [OF assms] unfolding Let_def pos_def n_def by simp_all
  have fl0: "0 \<le> \<lfloor>pos\<rfloor>" using range by simp
  have "\<lfloor>pos\<rfloor> < int n" using range(2) by (simp add: floor_less_iff)
  then have fl1: "i < n" unfolding i_def using fl0 by linarith
  have fl2: "\<lfloor>pos\<rfloor> = int i" unfolding i_def using fl0 by simp
  have fl3: "int i \<le> INT_MAX" using fl1 nint by linarith
  have "trunc (of_int (int i)) = int i" by (simp add: trunc_def)
  then have conv: "float_to_int (of_int \<lfloor>pos\<rfloor>) = Inr (int i)"
    unfolding fl2 using fl3 by (simp add: float_to_int_def INT_MIN_def)
  have fi: "to_float (of_int (int i)) = real i"
    using to_float_nat [of i] fl1 nmax by simp
  have np: "next_pos (int i) (bufferSize d) = Inr (int ((i + 1) mod n))"
    unfolding n_def by (rule next_pos_eq) (use fl1 nint in \<open>simp_all only: n_def\<close>)
  have b0: "vec_at (delayBuffer d) (int i) = Inr (delayBuffer d ! i)"
    using fl1 len by (simp add: vec_at_nat)
  have b1: "vec_at (delayBuffer d) (int ((i + 1) mod n)) = Inr (delayBuffer d ! ((i + 1) mod n))"
    using n len by (simp add: vec_at_nat)
  have bs: "bufferSize d \<noteq> 0" using n by (simp add: unat_gt_0 n_def)
  have wp': "unat (writePointer d) < length (delayBuffer d)" using wp len by simp
  have "processSample d x =
      (let frac = to_float (pos - real i);
           delayed = to_float (to_float (to_float (1 - frac) * delayBuffer d ! i)
                              + to_float (frac * delayBuffer d ! ((i + 1) mod n)))
       in Inr (to_float (to_float (to_float (1 - mix d) * x) + to_float (mix d * delayed)),
              d\<lparr>currentDelayTimeInSamples := smoothed_delay d,
                delayBuffer := (delayBuffer d)[unat (writePointer d) :=
                                  to_float (x + to_float (delayed * feedback d))],
                writePointer := (writePointer d + 1) mod bufferSize d\<rparr>))"
    unfolding processSample_def Let_def rp bind_Inr conv fi np b0 b1
    using wp' bs by simp
  then show ?thesis
    unfolding Let_def i_def pos_def n_def .
qed

subsection \<open>The member functions keep the class invariant\<close>

lemma trunc_range: "- 1 < x \<Longrightarrow> x < 2 ^ 32 \<Longrightarrow> 0 \<le> trunc x \<and> trunc x < 2 ^ 32"
proof -
  assume a: "- 1 < x" "x < 2 ^ 32"
  show ?thesis
  proof (cases "0 \<le> x")
    case True
    then have "trunc x = \<lfloor>x\<rfloor>" by (simp add: trunc_def)
    moreover have "\<lfloor>x\<rfloor> < 2 ^ 32" using a(2) by (simp add: floor_less_iff)
    moreover have "0 \<le> \<lfloor>x\<rfloor>" using True by simp
    ultimately show ?thesis by simp
  next
    case False
    then have "trunc x = \<lceil>x\<rceil>" by (simp add: trunc_def)
    moreover have "\<lceil>x\<rceil> = 0" using a(1) False by (simp add: ceiling_eq_iff)
    ultimately show ?thesis by simp
  qed
qed

lemma float_to_uint_ok:
  "- 1 < x \<Longrightarrow> x < 2 ^ 32 \<Longrightarrow> float_to_uint x = Inr (word_of_int (trunc x)) \<and> unat (word_of_int (trunc x) :: uint) = nat (trunc x)"
proof -
  assume a: "- 1 < x" "x < 2 ^ 32"
  from trunc_range [OF a] have r: "0 \<le> trunc x" "trunc x < 2 ^ 32" by auto
  then have "uint (word_of_int (trunc x) :: uint) = trunc x"
    by (simp add: uint_word_of_int)
  then have "unat (word_of_int (trunc x) :: uint) = nat (trunc x)"
    by (simp only: unat_eq_nat_uint)
  then show ?thesis using r by (simp add: float_to_uint_def)
qed

lemma unat_pred: "0 < unat (n :: uint) \<Longrightarrow> unat (n - 1) = unat n - 1"
  by (metis unat_gt_0 unat_minus_one)

text \<open>The target \<open>setDelayTime\<close> stores, with any capacity: the conversion back to
  \<open>float\<close> rounds a sample count above 2^24.\<close>

lemma setDelayTime_any:
  assumes "convertible (sampleRate d) t"
  shows "setDelayTime d t =
     Inr (d\<lparr>targetDelayTimeInSamples :=
            to_float (real (min (nat (trunc (to_float (t * to_float (real (unat (sampleRate d)))))))
                                (unat (bufferSize d - 1))))\<rparr>)"
proof -
  define p where "p = to_float (t * to_float (real (unat (sampleRate d))))"
  from assms have a: "- 1 < p" "p < 2 ^ 32"
    by (simp_all add: convertible_def p_def del: of_nat_unat)
  note c = float_to_uint_ok [OF a]
  have "unat (min (word_of_int (trunc p) :: uint) (bufferSize d - 1))
        = min (nat (trunc p)) (unat (bufferSize d - 1))"
    using c by (simp add: min_def word_le_nat_alt del: of_nat_unat)
  then show ?thesis
    using c by (simp add: setDelayTime_def p_def [symmetric] del: of_nat_unat)
qed

lemma setDelayTime_eq:
  assumes "convertible (sampleRate d) t" "0 < unat (bufferSize d)" "unat (bufferSize d) \<le> 2 ^ 24"
  shows "setDelayTime d t =
     Inr (d\<lparr>targetDelayTimeInSamples :=
            real (min (nat (trunc (to_float (t * to_float (real (unat (sampleRate d))))))) (unat (bufferSize d) - 1))\<rparr>)"
proof -
  define m where "m = min (nat (trunc (to_float (t * to_float (real (unat (sampleRate d))))))) (unat (bufferSize d) - 1)"
  have "m \<le> 2 ^ 24" using assms(3) by (simp add: m_def)
  then have "to_float (real m) = real m" by (rule to_float_nat)
  then show ?thesis
    using setDelayTime_any [OF assms(1)] unat_pred [OF assms(2)]
    by (simp add: m_def del: of_nat_unat)
qed

lemma wf_setDelayTime:
  assumes "wf_delay d" "convertible (sampleRate d) t"
  shows "\<exists>d'. setDelayTime d t = Inr d' \<and> wf_delay d' \<and> sampleRate d' = sampleRate d
              \<and> bufferSize d' = bufferSize d"
proof -
  define n where "n = unat (bufferSize d)"
  define m where "m = min (nat (trunc (to_float (t * to_float (real (unat (sampleRate d))))))) (n - 1)"
  from assms(1) have n: "0 < n" "n \<le> 2 ^ 24" by (simp_all add: wf_delay_def n_def)
  have m: "m \<le> n - 1" by (simp add: m_def)
  then have "m \<le> 2 ^ 24" using n(2) by linarith
  then have f: "to_float (real m) = real m" by (rule to_float_nat)
  have r: "real m \<le> real n - 1" using m n(1) by (simp add: of_nat_diff)
  have "setDelayTime d t = Inr (d\<lparr>targetDelayTimeInSamples := real m\<rparr>)"
    unfolding m_def n_def by (rule setDelayTime_eq) (use assms n in \<open>simp_all add: n_def\<close>)
  moreover have "wf_delay (d\<lparr>targetDelayTimeInSamples := real m\<rparr>)"
    using assms(1) f r by (simp add: wf_delay_def n_def del: of_nat_unat)
  ultimately show ?thesis by simp
qed

lemma clampValue_unit: "0 \<le> clampValue v 0 1 \<and> clampValue v 0 1 \<le> 1"
  by (simp add: clampValue_def)

lemma wf_setters:
  "wf_delay d \<Longrightarrow> wf_delay (setFeedback d g) \<and> wf_delay (setMix d m) \<and> wf_delay (setTimeSmoothingFactor d a)"
  using clampValue_unit [of a] clampValue_unit [of g] clampValue_unit [of m]
  by (simp add: wf_delay_def setFeedback_def setMix_def setTimeSmoothingFactor_def)

lemma wf_processSample:
  assumes "wf_delay d"
  shows "\<exists>out d'. processSample d x = Inr (out, d') \<and> wf_delay d' \<and> sampleRate d' = sampleRate d
                  \<and> bufferSize d' = bufferSize d"
proof -
  have n: "0 < unat (bufferSize d)" using assms by (simp add: wf_delay_def)
  have wp: "unat (writePointer d) < unat (bufferSize d)" using assms by (simp add: wf_delay_def)
  have w: "unat ((writePointer d + 1) mod bufferSize d) < unat (bufferSize d)"
    unfolding write_pointer_next [OF wp] using n by simp
  note s = smoothed_delay_range [OF assms]
  show ?thesis
    using assms w s unfolding processSample_eq [OF assms] Let_def
    by (simp add: wf_delay_def del: of_nat_unat)
qed

lemma read_position_range:
  assumes "wf_delay d"
  shows "\<exists>pos. read_position d = Inr pos \<and> 0 \<le> pos \<and> pos < real (unat (bufferSize d))"
  using read_position_eq [OF assms] unfolding Let_def by blast

lemma calls_delay_wf:
  "wf_delay d \<Longrightarrow> list_all (defined_call (sampleRate d)) cs \<Longrightarrow>
   \<exists>d'. calls_delay d cs = Inr d' \<and> wf_delay d' \<and> sampleRate d' = sampleRate d
         \<and> bufferSize d' = bufferSize d"
proof (induction cs arbitrary: d)
  case Nil
  then show ?case by simp
next
  case (Cons c cs)
  have "\<exists>d1. call_delay d c = Inr d1 \<and> wf_delay d1 \<and> sampleRate d1 = sampleRate d \<and> bufferSize d1 = bufferSize d"
  proof (cases c)
    case (SetDelayTime t)
    then have "convertible (sampleRate d) t" using Cons.prems(2) by simp
    from wf_setDelayTime [OF Cons.prems(1) this] show ?thesis using SetDelayTime by simp
  next
    case (SetFeedback g)
    then show ?thesis using wf_setters [OF Cons.prems(1)] by (simp add: setFeedback_def)
  next
    case (SetMix m)
    then show ?thesis using wf_setters [OF Cons.prems(1)] by (simp add: setMix_def)
  next
    case (SetTimeSmoothingFactor a)
    then show ?thesis using wf_setters [OF Cons.prems(1)] by (simp add: setTimeSmoothingFactor_def)
  next
    case (ProcessSample x)
    obtain out d1 where "processSample d x = Inr (out, d1)" "wf_delay d1" "sampleRate d1 = sampleRate d"
      "bufferSize d1 = bufferSize d"
      using wf_processSample [OF Cons.prems(1)] by blast
    then show ?thesis using ProcessSample by simp
  qed
  then obtain d1 where d1: "call_delay d c = Inr d1" "wf_delay d1" "sampleRate d1 = sampleRate d"
    "bufferSize d1 = bufferSize d" by blast
  have "list_all (defined_call (sampleRate d1)) cs" using Cons.prems(2) d1(3) by simp
  from Cons.IH [OF d1(2) this] d1 show ?case by auto
qed

text \<open>The constructor establishes the class invariant.\<close>

lemma wf_DelayEffect_new:
  assumes "convertible sr t" "0 < unat bufSize" "unat bufSize \<le> 2 ^ 24"
  shows "\<exists>d. DelayEffect_new sr t fb bufSize = Inr d \<and> wf_delay d \<and> sampleRate d = sr
             \<and> bufferSize d = bufSize"
proof -
  define d0 where "d0 = \<lparr>sampleRate = sr, bufferSize = bufSize, writePointer = 0,
                 currentDelayTimeInSamples = 0, targetDelayTimeInSamples = 0,
                 timeSmoothingFactor = to_float (1 / 100), feedback = 1 / 2, mix = 1 / 2,
                 delayBuffer = replicate (unat bufSize) (0 :: real)\<rparr>"
  have s: "0 \<le> to_float (1 / 100)" "to_float (1 / 100) \<le> 1"
    using to_float_unit [of "1 / 100"] by simp_all
  have "1 \<le> unat bufSize" using assms(2) by simp
  then have "1 \<le> real (unat bufSize)" by (simp only: of_nat_1 [symmetric, where ?'a = real] of_nat_le_iff)
  then have wf0: "wf_delay d0" using assms(2,3) s by (simp add: wf_delay_def d0_def del: of_nat_unat)
  have "convertible (sampleRate d0) t" using assms(1) by (simp add: d0_def)
  from wf_setDelayTime [OF wf0 this] obtain d1 where d1: "setDelayTime d0 t = Inr d1" "wf_delay d1"
    "sampleRate d1 = sr" "bufferSize d1 = bufSize" by (auto simp: d0_def)
  have "wf_delay (d1\<lparr>currentDelayTimeInSamples := targetDelayTimeInSamples d1\<rparr>)"
    using d1(2) by (simp add: wf_delay_def del: of_nat_unat)
  then have "wf_delay (setMix (setFeedback (d1\<lparr>currentDelayTimeInSamples := targetDelayTimeInSamples d1\<rparr>) fb) (1 / 2))"
    using wf_setters by blast
  moreover have "sampleRate (setMix (setFeedback (d1\<lparr>currentDelayTimeInSamples := targetDelayTimeInSamples d1\<rparr>) fb) (1 / 2)) = sr"
    "bufferSize (setMix (setFeedback (d1\<lparr>currentDelayTimeInSamples := targetDelayTimeInSamples d1\<rparr>) fb) (1 / 2)) = bufSize"
    using d1(3,4) by (simp_all add: setMix_def setFeedback_def)
  ultimately show ?thesis
    unfolding DelayEffect_new_def Let_def d0_def [symmetric] d1 bind_Inr by blast
qed

lemma wf_delay4: "wf_delay delay4"
proof -
  have "to_float (of_int 1) = of_int 1" "to_float (of_int 2) = of_int 2"
    by (rule to_float_int, simp)+
  then show ?thesis by (simp add: wf_delay_def delay4_def)
qed

lemma to_float_100: "0 \<le> to_float (1 / 100) \<and> to_float (1 / 100) \<le> 1"
  using to_float_unit [of "1 / 100"] by simp

lemma wf_delay44100: "wf_delay delay44100"
proof -
  have "to_float (of_int 22050) = of_int 22050" by (rule to_float_int) simp
  then show ?thesis using to_float_100 to_float_unit [of "7 / 10"]
    by (simp add: wf_delay_def delay44100_def)
qed

lemma to_float_44100: "to_float 44100 = 44100"
  using to_float_int [of 44100] by simp

lemma delay44100_new: "DelayEffect_new 44100 (1 / 2) (to_float (7 / 10)) 44100 = Inr delay44100"
proof -
  have "to_float (of_int 22050) = of_int 22050" by (rule to_float_int) simp
  then have t: "to_float 22050 = 22050" by simp
  show ?thesis
    using to_float_unit [of "7 / 10"]
    by (simp add: DelayEffect_new_def setDelayTime_def float_to_uint_def trunc_def
      setMix_def setFeedback_def clampValue_def delay44100_def to_float_44100 t)
qed

subsection \<open>Capacity zero\<close>

lemma wrap_up_zero: "x < 0 \<Longrightarrow> to_float x = x \<Longrightarrow> wrap_up x 0 = None"
proof -
  have "\<not> (a < 0 \<and> to_float a = a \<and> b = 0)" if "wrap_up a b = Some y" for a b y
  proof (rule wrap_up.raw_induct [where P = "\<lambda>a b y. \<not> (a < 0 \<and> to_float a = a \<and> b = 0)", OF _ that])
    fix f :: "real \<Rightarrow> real \<Rightarrow> real option" and a b y
    assume IH: "\<And>a b y. f a b = Some y \<Longrightarrow> \<not> (a < 0 \<and> to_float a = a \<and> b = 0)"
      and eq: "(if a < 0 then f (to_float (a + b)) b else Some a) = Some y"
    show "\<not> (a < 0 \<and> to_float a = a \<and> b = 0)"
    proof
      assume z: "a < 0 \<and> to_float a = a \<and> b = 0"
      then have "f a 0 = Some y" using eq by simp
      from IH [OF this] z show False by simp
    qed
  qed
  then show "x < 0 \<Longrightarrow> to_float x = x \<Longrightarrow> wrap_up x 0 = None"
    by (cases "wrap_up x 0") auto
qed

lemma wrap_down_zero: "0 \<le> x \<Longrightarrow> to_float x = x \<Longrightarrow> wrap_down x 0 = None"
proof -
  have "\<not> (0 \<le> a \<and> to_float a = a \<and> b = 0)" if "wrap_down a b = Some y" for a b y
  proof (rule wrap_down.raw_induct [where P = "\<lambda>a b y. \<not> (0 \<le> a \<and> to_float a = a \<and> b = 0)", OF _ that])
    fix f :: "real \<Rightarrow> real \<Rightarrow> real option" and a b y
    assume IH: "\<And>a b y. f a b = Some y \<Longrightarrow> \<not> (0 \<le> a \<and> to_float a = a \<and> b = 0)"
      and eq: "(if a \<ge> b then f (to_float (a - b)) b else Some a) = Some y"
    show "\<not> (0 \<le> a \<and> to_float a = a \<and> b = 0)"
    proof
      assume z: "0 \<le> a \<and> to_float a = a \<and> b = 0"
      then have "f a 0 = Some y" using eq by simp
      from IH [OF this] z show False by simp
    qed
  qed
  then show "0 \<le> x \<Longrightarrow> to_float x = x \<Longrightarrow> wrap_down x 0 = None"
    by (cases "wrap_down x 0") auto
qed

lemma read_position_zero: "bufferSize d = 0 \<Longrightarrow> read_position d = Inl Diverges"
proof -
  assume z: "bufferSize d = 0"
  let ?x = "to_float (to_float (real (unat (writePointer d))) - smoothed_delay d)"
  have f: "to_float ?x = ?x" by simp
  show ?thesis
  proof (cases "?x < 0")
    case True
    from wrap_up_zero [OF True f] show ?thesis
      using z by (simp add: read_position_def loop_result_def Let_def del: of_nat_unat)
  next
    case False
    then have "wrap_up ?x 0 = Some ?x" by (subst wrap_up.simps) simp
    moreover have "wrap_down ?x 0 = None" using False f by (intro wrap_down_zero) simp_all
    ultimately show ?thesis using z by (simp add: read_position_def loop_result_def Let_def del: of_nat_unat)
  qed
qed

subsection \<open>The sample values stay in range\<close>

lemma float_mul_bound:
  assumes "0 \<le> g" "g \<le> 1" "\<bar>b\<bar> \<le> B" "to_float B = B"
  shows "\<bar>to_float (g * b)\<bar> \<le> B"
proof -
  have b: "- B \<le> b" "b \<le> B" using assms(3) by simp_all
  have "g * b \<le> 1 * B"
  proof (cases "0 \<le> b")
    case True
    then show ?thesis using assms(1,2) b by (intro mult_mono) simp_all
  next
    case False
    then have "g * b \<le> 0" using assms(1) by (simp add: mult_nonneg_nonpos)
    then show ?thesis using b by linarith
  qed
  then have "to_float (g * b) \<le> to_float B" by (intro to_float_le) simp
  then have hi: "to_float (g * b) \<le> B" by (simp add: assms(4))
  have "g * (- b) \<le> 1 * B"
  proof (cases "0 \<le> - b")
    case True
    then show ?thesis using assms(1,2) b by (intro mult_mono) simp_all
  next
    case False
    then have "g * (- b) \<le> 0" using assms(1) by (intro mult_nonneg_nonpos) simp_all
    then show ?thesis using b by linarith
  qed
  then have "- B \<le> g * b" by simp
  then have "to_float (- B) \<le> to_float (g * b)" by (rule to_float_le)
  then have lo: "- B \<le> to_float (g * b)" by (simp add: to_float_minus assms(4))
  show ?thesis using lo hi by simp
qed

lemma float_add_bound:
  assumes "\<bar>p\<bar> \<le> P" "\<bar>q\<bar> \<le> Q" "to_float (P + Q) = P + Q"
  shows "\<bar>to_float (p + q)\<bar> \<le> P + Q"
proof -
  have "to_float (p + q) \<le> to_float (P + Q)" using assms(1,2) by (intro to_float_le) linarith
  then have hi: "to_float (p + q) \<le> P + Q" by (simp only: assms(3))
  have "to_float (- (P + Q)) \<le> to_float (p + q)" using assms(1,2) by (intro to_float_le) linarith
  then have lo: "- (P + Q) \<le> to_float (p + q)" by (simp only: to_float_minus assms(3))
  show ?thesis using lo hi by linarith
qed

lemma float_2_126:
  "to_float (2 ^ 126) = 2 ^ 126" "to_float (2 ^ 126 + 2 ^ 126) = 2 ^ 126 + 2 ^ 126"
  "to_float (2 ^ 126 + (2 ^ 126 + 2 ^ 126)) = 2 ^ 126 + (2 ^ 126 + 2 ^ 126)"
proof -
  have "to_float (of_int 1 * 2 powr of_int 126) = of_int 1 * 2 powr of_int 126"
    "to_float (of_int 2 * 2 powr of_int 126) = of_int 2 * 2 powr of_int 126"
    "to_float (of_int 3 * 2 powr of_int 126) = of_int 3 * 2 powr of_int 126"
    by (rule to_float_exact, simp, simp)+
  moreover have "2 powr of_int 126 = (2 :: real) ^ 126"
    using powr_realpow [of 2 126] by simp
  ultimately show "to_float (2 ^ 126) = 2 ^ 126" "to_float (2 ^ 126 + 2 ^ 126) = 2 ^ 126 + 2 ^ 126"
    "to_float (2 ^ 126 + (2 ^ 126 + 2 ^ 126)) = 2 ^ 126 + (2 ^ 126 + 2 ^ 126)"
    by simp_all
qed

lemma processSample_bounds:
  assumes f: "0 \<le> fr" "fr \<le> 1" and g: "0 \<le> fb" "fb \<le> 1" and m: "0 \<le> mx" "mx \<le> 1"
    and b: "\<bar>b0\<bar> \<le> 2 ^ 126" "\<bar>b1\<bar> \<le> 2 ^ 126" "\<bar>x\<bar> \<le> 2 ^ 126"
  shows "let delayed = to_float (to_float (to_float (1 - fr) * b0) + to_float (fr * b1))
         in \<bar>to_float (to_float (to_float (1 - mx) * x) + to_float (mx * delayed))\<bar> \<le> 3 * 2 ^ 126
            \<and> \<bar>to_float (x + to_float (delayed * fb))\<bar> \<le> 3 * 2 ^ 126"
proof -
  define delayed where "delayed = to_float (to_float (to_float (1 - fr) * b0) + to_float (fr * b1))"
  have u: "0 \<le> to_float (1 - fr)" "to_float (1 - fr) \<le> 1"
    using to_float_unit [of "1 - fr"] f by simp_all
  have v: "0 \<le> to_float (1 - mx)" "to_float (1 - mx) \<le> 1"
    using to_float_unit [of "1 - mx"] m by simp_all
  have p: "\<bar>to_float (to_float (1 - fr) * b0)\<bar> \<le> 2 ^ 126"
    by (rule float_mul_bound [OF u b(1) float_2_126(1)])
  have q: "\<bar>to_float (fr * b1)\<bar> \<le> 2 ^ 126"
    by (rule float_mul_bound [OF f b(2) float_2_126(1)])
  have d: "\<bar>delayed\<bar> \<le> 2 ^ 126 + 2 ^ 126"
    unfolding delayed_def by (rule float_add_bound [OF p q float_2_126(2)])
  have p2: "\<bar>to_float (to_float (1 - mx) * x)\<bar> \<le> 2 ^ 126"
    by (rule float_mul_bound [OF v b(3) float_2_126(1)])
  have q2: "\<bar>to_float (mx * delayed)\<bar> \<le> 2 ^ 126 + 2 ^ 126"
    by (rule float_mul_bound [OF m d float_2_126(2)])
  have out: "\<bar>to_float (to_float (to_float (1 - mx) * x) + to_float (mx * delayed))\<bar>
             \<le> 2 ^ 126 + (2 ^ 126 + 2 ^ 126)"
    by (rule float_add_bound [OF p2 q2 float_2_126(3)])
  have "\<bar>to_float (fb * delayed)\<bar> \<le> 2 ^ 126 + 2 ^ 126"
    by (rule float_mul_bound [OF g d float_2_126(2)])
  then have q3: "\<bar>to_float (delayed * fb)\<bar> \<le> 2 ^ 126 + 2 ^ 126" by (simp add: mult.commute)
  have st: "\<bar>to_float (x + to_float (delayed * fb))\<bar> \<le> 2 ^ 126 + (2 ^ 126 + 2 ^ 126)"
    by (rule float_add_bound [OF b(3) q3 float_2_126(3)])
  show ?thesis unfolding Let_def delayed_def [symmetric] using out st by simp
qed

text \<open>C1, as the code has it: on a delay line in a state the class can be in (at least
  one and at most 2^24 slots, see \<open>wf_delay\<close>), for an input and buffer contents up to 2^126
  in magnitude, \<open>processSample\<close> returns, and does exactly this, every operation rounded to
  single precision: (1) the current delay moves towards the target by the smoothing
  factor times the difference; (2) the read position is the write pointer less the
  current delay, brought into [0, capacity) by adding the capacity (at most twice) or
  subtracting it (at most once); (3) the delayed sample interpolates linearly between the
  slot under the read position and the next one, which wraps at the capacity; (4) the
  output is \<open>(1 - mix) * input + mix * delayed\<close>; (5) the slot at the write pointer becomes
  \<open>input + delayed * feedback\<close>; (6) the write pointer becomes
  \<open>(writePointer + 1) mod capacity\<close>; nothing else changes. The output and the stored
  sample are below 2^128 in magnitude: no operation overflows.\<close>

theorem processSample_steps:
  assumes "wf_delay d" "\<bar>inputSample\<bar> \<le> 2 ^ 126"
    and "list_all (\<lambda>v. \<bar>v\<bar> \<le> 2 ^ 126) (delayBuffer d)"
  shows "let capacity = unat (bufferSize d);
             cur = to_float (currentDelayTimeInSamples d
                     + to_float (timeSmoothingFactor d
                         * to_float (targetDelayTimeInSamples d - currentDelayTimeInSamples d)));
             d0 = to_float (real (unat (writePointer d)) - cur);
             d1 = (if d0 < 0 then to_float (d0 + real capacity) else d0);
             d2 = (if d1 < 0 then to_float (d1 + real capacity) else d1);
             pos = (if d2 \<ge> real capacity then to_float (d2 - real capacity) else d2);
             i = nat \<lfloor>pos\<rfloor>;
             frac = to_float (pos - real i);
             delayed = to_float (to_float (to_float (1 - frac) * delayBuffer d ! i)
                                 + to_float (frac * delayBuffer d ! ((i + 1) mod capacity)));
             output = to_float (to_float (to_float (1 - mix d) * inputSample) + to_float (mix d * delayed));
             stored = to_float (inputSample + to_float (delayed * feedback d));
             w = (writePointer d + 1) mod bufferSize d
         in 0 \<le> pos \<and> pos < real capacity \<and> i < capacity
            \<and> unat w = (unat (writePointer d) + 1) mod capacity
            \<and> processSample d inputSample =
                Inr (output,
                     d\<lparr>currentDelayTimeInSamples := cur,
                       delayBuffer := (delayBuffer d)[unat (writePointer d) := stored],
                       writePointer := w\<rparr>)
            \<and> \<bar>output\<bar> < 2 ^ 128 \<and> \<bar>stored\<bar> < 2 ^ 128"
proof -
  define n where "n = unat (bufferSize d)"
  define pos where "pos =
     (let d0 = to_float (real (unat (writePointer d)) - smoothed_delay d);
          d1 = (if d0 < 0 then to_float (d0 + real n) else d0);
          d2 = (if d1 < 0 then to_float (d1 + real n) else d1)
      in if d2 \<ge> real n then to_float (d2 - real n) else d2)"
  define i where "i = nat \<lfloor>pos\<rfloor>"
  from assms(1) have n: "0 < n" and wp: "unat (writePointer d) < n"
    and len: "length (delayBuffer d) = n"
    and g: "0 \<le> feedback d" "feedback d \<le> 1" and m: "0 \<le> mix d" "mix d \<le> 1"
    by (simp_all add: wf_delay_def n_def)
  have range: "0 \<le> pos" "pos < real n"
    using read_position_eq [OF assms(1)] unfolding Let_def pos_def n_def by simp_all
  then have fl0: "0 \<le> \<lfloor>pos\<rfloor>" by simp
  have "\<lfloor>pos\<rfloor> < int n" using range(2) by (simp add: floor_less_iff)
  then have fl1: "i < n" unfolding i_def using fl0 by linarith
  have ri: "real i = of_int \<lfloor>pos\<rfloor>" unfolding i_def using fl0 by simp
  have "0 \<le> pos - real i" "pos - real i \<le> 1" unfolding ri by linarith+
  then have f: "0 \<le> to_float (pos - real i)" "to_float (pos - real i) \<le> 1"
    using to_float_unit by blast+
  have b: "\<bar>delayBuffer d ! i\<bar> \<le> 2 ^ 126" "\<bar>delayBuffer d ! ((i + 1) mod n)\<bar> \<le> 2 ^ 126"
    using assms(3) fl1 n len by (simp_all add: list_all_length)
  note bd = processSample_bounds [OF f g m b assms(2), unfolded Let_def]
  have w: "unat ((writePointer d + 1) mod bufferSize d) = (unat (writePointer d) + 1) mod n"
    unfolding n_def by (rule write_pointer_next) (use wp in \<open>simp only: n_def\<close>)
  have sd: "smoothed_delay d = to_float (currentDelayTimeInSamples d
                     + to_float (timeSmoothingFactor d
                         * to_float (targetDelayTimeInSamples d - currentDelayTimeInSamples d)))"
    by (simp add: smoothed_delay_def Let_def)
  note ps = processSample_eq [OF assms(1), of inputSample, unfolded Let_def, folded n_def,
      folded pos_def [unfolded Let_def], folded i_def]
  show ?thesis
    unfolding Let_def sd [symmetric]
    apply (fold n_def)
    apply (fold pos_def [unfolded Let_def])
    apply (fold i_def)
    using range fl1 w ps bd by simp
qed

text \<open>C1 as stated fails on large buffers: the read position is held in an \<open>int\<close>. With
  2^31 + 256 slots, the write pointer at 2^31 and no delay, the read position is 2^31,
  which \<open>int\<close> cannot hold.\<close>

theorem processSample_beyond_int:
  "processSample
     \<lparr>sampleRate = 44100, bufferSize = 2147483904, writePointer = 2147483648,
      currentDelayTimeInSamples = 0, targetDelayTimeInSamples = 0,
      timeSmoothingFactor = to_float (1 / 100), feedback = 1 / 2, mix = 1 / 2,
      delayBuffer = replicate 2147483904 0\<rparr> 1
   = Inl BadConversion"
proof -
  let ?d = "\<lparr>sampleRate = 44100, bufferSize = 2147483904, writePointer = 2147483648,
      currentDelayTimeInSamples = 0, targetDelayTimeInSamples = 0,
      timeSmoothingFactor = to_float (1 / 100), feedback = 1 / 2, mix = 1 / 2,
      delayBuffer = replicate 2147483904 (0::real)\<rparr>"
  have "to_float (of_int 8388608 * 2 powr of_int 8) = of_int 8388608 * 2 powr of_int 8"
    by (rule to_float_exact) simp_all
  then have a: "to_float 2147483648 = 2147483648" by simp
  have "to_float (of_int 8388609 * 2 powr of_int 8) = of_int 8388609 * 2 powr of_int 8"
    by (rule to_float_exact) simp_all
  then have b: "to_float 2147483904 = 2147483904" by simp
  have u: "wrap_up 2147483648 2147483904 = Some 2147483648"
    by (subst wrap_up.simps) simp
  have v: "wrap_down 2147483648 2147483904 = Some 2147483648"
    by (subst wrap_down.simps) simp
  have "read_position ?d = Inr 2147483648"
    by (simp add: read_position_def smoothed_delay_def a b u v loop_result_def)
  then show ?thesis
    by (simp add: processSample_def float_to_int_def trunc_def INT_MAX_def)
qed

theorem processSample_steps_witness:
  "wf_delay delay4 \<and> \<bar>1 :: real\<bar> \<le> 2 ^ 126
   \<and> list_all (\<lambda>v. \<bar>v\<bar> \<le> 2 ^ 126) (delayBuffer delay4) \<and>
   processSample delay4 1 =
     Inr (7 / 4, delay4\<lparr>currentDelayTimeInSamples := 3 / 2,
                        delayBuffer := [1, 9 / 4, 3, 4], writePointer := 2\<rparr>)"
proof -
  have h: "to_float (1 / 2) = 1 / 2" "to_float (3 / 2) = 3 / 2" "to_float (7 / 2) = 7 / 2"
    "to_float (5 / 2) = 5 / 2"
    using to_float_half [of 1] to_float_half [of 3] to_float_half [of 7] to_float_half [of 5]
    by simp_all
  have q: "to_float (5 / 4) = 5 / 4" "to_float (7 / 4) = 7 / 4" "to_float (9 / 4) = 9 / 4"
    using to_float_quarter [of 5] to_float_quarter [of 7] to_float_quarter [of 9] by simp_all
  have i: "to_float 2 = 2" "to_float 4 = 4"
    using to_float_int [of 2] to_float_int [of 4] by simp_all
  have m: "to_float (- (1 / 2)) = - (1 / 2)" by (simp only: to_float_minus h)
  have a: "\<bar>1 :: real\<bar> \<le> 2 ^ 126" by simp
  have l: "list_all (\<lambda>v. \<bar>v\<bar> \<le> 2 ^ 126) (delayBuffer delay4)" by (simp add: delay4_def)
  show ?thesis
    using wf_delay4 a l processSample_steps [OF wf_delay4 a l]
    by (simp add: Let_def delay4_def h q i m)
qed

text \<open>Above 2^24 slots the write pointer is rounded when it is converted to \<open>float\<close>:
  with 2^24 + 2 slots, the write pointer at 2^24 + 1 and no delay, the read position is
  2^24, and the delayed sample is the 1 of slot 2^24, not the 0 of the slot at the write
  pointer.\<close>

lemma to_float_16777217: "to_float 16777217 = 16777216"
proof -
  have "to_float 16777217 = of_int (round_even (16777217 / 2 powr (of_int 24 - 23))) * 2 powr (of_int 24 - 23)"
    by (rule to_float_binade) simp_all
  also have "2 powr (of_int 24 - 23) = (2 :: real)" by simp
  also have "round_even (16777217 / 2) = 8388608" by (simp add: round_even_def floor_eq_iff)
  finally show ?thesis by simp
qed

lemma to_float_16777218: "to_float 16777218 = 16777218"
  using to_float_even [of 8388609] by simp

lemma processSample_rounds_write_pointer:
  "(case processSample delay_2_24 0 of Inl e \<Rightarrow> False | Inr r \<Rightarrow> fst r = 1)
   \<and> delayBuffer delay_2_24 ! unat (writePointer delay_2_24) = 0"
proof -
  have a: "to_float 16777216 = 16777216" using to_float_int [of 16777216] by simp
  have u: "wrap_up 16777216 16777218 = Some 16777216"
    by (subst wrap_up.simps) simp
  have v: "wrap_down 16777216 16777218 = Some 16777216"
    by (subst wrap_down.simps) simp
  have rp: "read_position delay_2_24 = Inr 16777216"
    by (simp add: read_position_def smoothed_delay_def delay_2_24_def to_float_16777217
        to_float_16777218 a u v loop_result_def)
  have np: "next_pos 16777216 (bufferSize delay_2_24) = Inr 16777217"
    by (simp add: next_pos_def int_add_def INT_MIN_def INT_MAX_def delay_2_24_def)
  have conv: "float_to_int (of_int \<lfloor>16777216 :: real\<rfloor>) = Inr 16777216"
    by (simp add: float_to_int_def trunc_def INT_MIN_def INT_MAX_def)
  show ?thesis
    unfolding processSample_def Let_def rp bind_Inr conv np
    by (simp add: a vec_at_def delay_2_24_def)
qed


text \<open>Outside the class invariant the first loop need not end: with four slots and a
  current delay of 2^27, adding the capacity to the read position -2^27 gives -2^27 again.\<close>

lemma wrap_up_stall: "x < 0 \<Longrightarrow> to_float (x + n) = x \<Longrightarrow> wrap_up x n = None"
proof -
  have "\<not> (a < 0 \<and> to_float (a + b) = a)" if "wrap_up a b = Some y" for a b y
  proof (rule wrap_up.raw_induct [where P = "\<lambda>a b y. \<not> (a < 0 \<and> to_float (a + b) = a)", OF _ that])
    fix f :: "real \<Rightarrow> real \<Rightarrow> real option" and a b y
    assume IH: "\<And>a b y. f a b = Some y \<Longrightarrow> \<not> (a < 0 \<and> to_float (a + b) = a)"
      and eq: "(if a < 0 then f (to_float (a + b)) b else Some a) = Some y"
    show "\<not> (a < 0 \<and> to_float (a + b) = a)"
    proof
      assume z: "a < 0 \<and> to_float (a + b) = a"
      then have "f a b = Some y" using eq by simp
      from IH [OF this] z show False by simp
    qed
  qed
  then show "x < 0 \<Longrightarrow> to_float (x + n) = x \<Longrightarrow> wrap_up x n = None"
    by (cases "wrap_up x n") auto
qed

lemma to_float_near_2_27:
  "to_float (- 134217727) = - 134217728" "to_float (- 134217724) = - 134217728"
proof -
  have "to_float (- 134217727) =
      of_int (round_even (- 134217727 / 2 powr (of_int 26 - 23))) * 2 powr (of_int 26 - 23)"
    by (rule to_float_binade) simp_all
  also have "2 powr (of_int 26 - 23) = (8 :: real)" by simp
  also have "round_even (- 134217727 / 8) = - 16777216" by (simp add: round_even_def floor_eq_iff)
  finally show "to_float (- 134217727) = - 134217728" by simp
  have "to_float (- 134217724) =
      of_int (round_even (- 134217724 / 2 powr (of_int 26 - 23))) * 2 powr (of_int 26 - 23)"
    by (rule to_float_binade) simp_all
  also have "2 powr (of_int 26 - 23) = (8 :: real)" by simp
  also have "round_even (- 134217724 / 8) = - 16777216" by (simp add: round_even_def floor_eq_iff)
  finally show "to_float (- 134217724) = - 134217728" by simp
qed

lemma processSample_stalls:
  "processSample (delay4\<lparr>currentDelayTimeInSamples := 134217728,
                          targetDelayTimeInSamples := 134217728\<rparr>) x = Inl Diverges"
proof -
  have "to_float (of_int 1 * 2 powr of_int 27) = of_int 1 * 2 powr of_int 27"
    by (rule to_float_exact) simp_all
  then have a: "to_float 134217728 = 134217728" by simp
  have b: "to_float 4 = 4" using to_float_int [of 4] by simp
  have "wrap_up (- 134217728) 4 = None"
    by (rule wrap_up_stall) (simp_all add: to_float_near_2_27)
  then have "read_position (delay4\<lparr>currentDelayTimeInSamples := 134217728,
                          targetDelayTimeInSamples := 134217728\<rparr>) = Inl Diverges"
    by (simp add: read_position_def smoothed_delay_def delay4_def a b to_float_near_2_27
        loop_result_def)
  then show ?thesis by (simp add: processSample_def)
qed

text \<open>C2, as the code has it: for a delay time whose rounded product with the sample
  rate \<open>unsigned int\<close> can hold, \<open>setDelayTime\<close> sets the target to the whole number of
  samples \<open>min (trunc (to_float (seconds * sampleRate))) (capacity - 1)\<close> and changes nothing
  else, the current delay included; and after any sequence of calls of the member
  functions (every \<open>setDelayTime\<close> among them with such a delay time) the delay line is well
  formed and the read position \<open>processSample\<close> computes lies in [0, capacity): its two
  loops end. Every \<open>processSample\<close> of the sequence returned, so its two indices were inside
  the buffer.\<close>

theorem setDelayTime_truncates:
  assumes "wf_delay d" "convertible (sampleRate d) t" "list_all (defined_call (sampleRate d)) cs"
  shows "setDelayTime d t =
           Inr (d\<lparr>targetDelayTimeInSamples :=
                  real (min (nat (trunc (to_float (t * to_float (real (unat (sampleRate d)))))))
                            (unat (bufferSize d) - 1))\<rparr>)
         \<and> (case calls_delay d cs of
               Inl e \<Rightarrow> False
             | Inr d' \<Rightarrow>
                 wf_delay d' \<and>
                 (case read_position d' of
                    Inl e \<Rightarrow> False
                  | Inr pos \<Rightarrow> 0 \<le> pos \<and> pos < real (unat (bufferSize d'))))"
proof -
  have n: "0 < unat (bufferSize d)" "unat (bufferSize d) \<le> 2 ^ 24"
    using assms(1) by (simp_all add: wf_delay_def)
  obtain d' where d': "calls_delay d cs = Inr d'" "wf_delay d'"
    using calls_delay_wf [OF assms(1,3)] by blast
  obtain pos where "read_position d' = Inr pos" "0 \<le> pos" "pos < real (unat (bufferSize d'))"
    using read_position_range [OF d'(2)] by blast
  then show ?thesis using setDelayTime_eq [OF assms(2) n] d' by simp
qed

lemma to_float_half_33075: "to_float (33075 / 2) = 33075 / 2"
  using to_float_half [of 33075] by simp

text \<open>C2 as stated fails: the target is not the clamped product. For 0.375 s at 44100 Hz
  the product is 16537.5, inside [0, capacity - 1], and the target becomes 16537.\<close>

theorem setDelayTime_not_clamp_of_product:
  "setDelayTime delay44100 (3 / 8) = Inr (delay44100\<lparr>targetDelayTimeInSamples := 16537\<rparr>)
   \<and> clampValue (3 / 8 * real (unat (sampleRate delay44100))) 0
        (real (unat (bufferSize delay44100)) - 1) = 33075 / 2"
proof -
  have "to_float (of_int 16537) = of_int 16537" by (rule to_float_int) simp
  then have t: "to_float 16537 = 16537" by simp
  show ?thesis
    by (simp add: setDelayTime_def float_to_uint_def trunc_def delay44100_def clampValue_def
        to_float_44100 to_float_half_33075 t)
qed

text \<open>The product is rounded before it is truncated: 0.7f * 44100 is 30869.9995, which
  rounds to 30870.\<close>

lemma to_float_7_10: "to_float (7 / 10) = 11744051 / 16777216"
proof -
  have "to_float (7 / 10) = of_int (round_even (7 / 10 / 2 powr (of_int (- 1) - 23))) * 2 powr (of_int (- 1) - 23)"
    by (rule to_float_binade) (simp_all add: powr_neg_one)
  also have "2 powr (of_int (- 1) - 23) = (1 / 16777216 :: real)" by (simp add: powr_neg_numeral)
  also have "round_even (7 / 10 / (1 / 16777216)) = 11744051"
    by (simp add: round_even_def floor_eq_iff)
  finally show ?thesis by simp
qed

lemma to_float_product: "to_float (129478162275 / 4194304) = 30870"
proof -
  have "to_float (129478162275 / 4194304) =
      of_int (round_even (129478162275 / 4194304 / 2 powr (of_int 14 - 23))) * 2 powr (of_int 14 - 23)"
    by (rule to_float_binade) simp_all
  also have "2 powr (of_int 14 - 23) = (1 / 512 :: real)" by (simp add: powr_neg_numeral)
  also have "round_even (129478162275 / 4194304 / (1 / 512)) = 15805440"
    by (simp add: round_even_def floor_eq_iff)
  finally show ?thesis by simp
qed

lemma exact_product_truncates_lower: "trunc (to_float (7 / 10) * 44100) = 30869"
proof -
  have "\<lfloor>129478162275 / 4194304 :: real\<rfloor> = 30869" by (simp add: floor_eq_iff)
  then show ?thesis by (simp add: trunc_def to_float_7_10)
qed

theorem setDelayTime_truncates_witness:
  "setDelayTime delay44100 (to_float (7 / 10)) = Inr (delay44100\<lparr>targetDelayTimeInSamples := 30870\<rparr>)
   \<and> (case calls_delay delay44100 [SetDelayTime 3, ProcessSample 1, SetDelayTime (1 / 88200), ProcessSample 0] of
               Inl e \<Rightarrow> False
             | Inr d' \<Rightarrow>
                 wf_delay d' \<and>
                 (case read_position d' of
                    Inl e \<Rightarrow> False
                  | Inr pos \<Rightarrow> 0 \<le> pos \<and> pos < real (unat (bufferSize d'))))"
proof -
  have "to_float (of_int 132300) = of_int 132300" by (rule to_float_int) simp
  then have a: "to_float 132300 = 132300" by simp
  have b: "to_float (1 / 2) = 1 / 2" using to_float_half [of 1] by simp
  have c: "convertible (sampleRate delay44100) (to_float (7 / 10))"
    by (simp add: convertible_def delay44100_def to_float_44100 to_float_7_10 to_float_product)
  have l: "list_all (defined_call (sampleRate delay44100))
             [SetDelayTime 3, ProcessSample 1, SetDelayTime (1 / 88200), ProcessSample 0]"
    by (simp add: convertible_def delay44100_def to_float_44100 a b)
  have t: "min (nat (trunc (to_float (to_float (7 / 10) * to_float (real (unat (sampleRate delay44100)))))))
               (unat (bufferSize delay44100) - 1) = 30870"
    by (simp add: delay44100_def trunc_def to_float_44100 to_float_7_10 to_float_product)
  show ?thesis
    using setDelayTime_truncates [OF wf_delay44100 c l] unfolding t by simp
qed

text \<open>C4, as the code has it: the constructor does not look at the capacity. With
  capacity 0 (and a delay time whose sample count \<open>unsigned int\<close> can hold) it returns an
  object with an empty buffer, and the target delay is bounded by \<open>bufferSize - 1\<close> only,
  which has wrapped to 2^32 - 1. \<open>processSample\<close> on that object never returns: one of its
  two loops adds or subtracts 0 for ever.\<close>

theorem zero_capacity_not_rejected:
  assumes "convertible sr delayTimeSec"
  shows "DelayEffect_new sr delayTimeSec feedbackAmount 0 =
           Inr \<lparr>sampleRate = sr, bufferSize = 0, writePointer = 0,
                currentDelayTimeInSamples =
                  to_float (real (nat (trunc (to_float (delayTimeSec * to_float (real (unat sr))))))),
                targetDelayTimeInSamples =
                  to_float (real (nat (trunc (to_float (delayTimeSec * to_float (real (unat sr))))))),
                timeSmoothingFactor = to_float (1 / 100),
                feedback = clampValue feedbackAmount 0 1, mix = 1 / 2,
                delayBuffer = []\<rparr>
         \<and> (case DelayEffect_new sr delayTimeSec feedbackAmount 0 of
               Inl e \<Rightarrow> False
             | Inr d \<Rightarrow> processSample d inputSample = Inl Diverges)"
proof -
  define p where "p = to_float (delayTimeSec * to_float (real (unat sr)))"
  from assms have a: "- 1 < p" "p < 2 ^ 32"
    by (simp_all add: convertible_def p_def del: of_nat_unat)
  note c = float_to_uint_ok [OF a]
  have m: "unat (min (word_of_int (trunc p) :: uint) (0 - 1)) = nat (trunc p)"
    using c by (simp add: min_def del: of_nat_unat)
  have new: "DelayEffect_new sr delayTimeSec feedbackAmount 0 =
           Inr \<lparr>sampleRate = sr, bufferSize = 0, writePointer = 0,
                currentDelayTimeInSamples = to_float (real (nat (trunc p))),
                targetDelayTimeInSamples = to_float (real (nat (trunc p))),
                timeSmoothingFactor = to_float (1 / 100),
                feedback = clampValue feedbackAmount 0 1, mix = 1 / 2,
                delayBuffer = []\<rparr>"
    using c m by (simp add: DelayEffect_new_def setDelayTime_def setMix_def setFeedback_def
        clampValue_def Let_def p_def [symmetric] del: of_nat_unat)
  show ?thesis
    unfolding p_def [symmetric] new by (simp add: processSample_def read_position_zero del: of_nat_unat)
qed

text \<open>C4 as stated fails: with the arguments of the program's own instance but capacity
  0, the constructor returns an object.\<close>

theorem zero_capacity_constructed:
  "DelayEffect_new 44100 (1 / 2) (to_float (7 / 10)) 0 =
     Inr \<lparr>sampleRate = 44100, bufferSize = 0, writePointer = 0,
          currentDelayTimeInSamples = 22050, targetDelayTimeInSamples = 22050,
          timeSmoothingFactor = to_float (1 / 100), feedback = to_float (7 / 10), mix = 1 / 2,
          delayBuffer = []\<rparr>"
proof -
  have "to_float (of_int 22050) = of_int 22050" by (rule to_float_int) simp
  then have t: "to_float 22050 = 22050" by simp
  show ?thesis
    using to_float_unit [of "7 / 10"]
    by (simp add: DelayEffect_new_def setDelayTime_def float_to_uint_def trunc_def
      setMix_def setFeedback_def clampValue_def to_float_44100 t)
qed

theorem zero_capacity_not_rejected_witness:
  "DelayEffect_new 44100 (1 / 2) (to_float (7 / 10)) 0 =
     Inr \<lparr>sampleRate = 44100, bufferSize = 0, writePointer = 0,
          currentDelayTimeInSamples = 22050, targetDelayTimeInSamples = 22050,
          timeSmoothingFactor = to_float (1 / 100), feedback = to_float (7 / 10), mix = 1 / 2,
          delayBuffer = []\<rparr>
   \<and> processSample \<lparr>sampleRate = 44100, bufferSize = 0, writePointer = 0,
          currentDelayTimeInSamples = 22050, targetDelayTimeInSamples = 22050,
          timeSmoothingFactor = to_float (1 / 100), feedback = to_float (7 / 10), mix = 1 / 2,
          delayBuffer = []\<rparr> 1 = Inl Diverges"
proof -
  have "to_float (of_int 22050) = of_int 22050" by (rule to_float_int) simp
  then have f: "to_float 22050 = 22050" by simp
  have c: "convertible 44100 (1 / 2)" by (simp add: convertible_def to_float_44100 f)
  have t: "to_float (real (nat (trunc (to_float (1 / 2 * to_float (real (unat (44100 :: uint)))))))) = 22050"
    by (simp add: trunc_def to_float_44100 f)
  have k: "clampValue (to_float (7 / 10)) 0 1 = to_float (7 / 10)"
    using to_float_unit [of "7 / 10"] by (simp add: clampValue_def)
  note z = zero_capacity_not_rejected [OF c, of "to_float (7 / 10)" 1, unfolded t k]
  have n: "DelayEffect_new 44100 (1 / 2) (to_float (7 / 10)) 0 =
     Inr \<lparr>sampleRate = 44100, bufferSize = 0, writePointer = 0,
          currentDelayTimeInSamples = 22050, targetDelayTimeInSamples = 22050,
          timeSmoothingFactor = to_float (1 / 100), feedback = to_float (7 / 10), mix = 1 / 2,
          delayBuffer = []\<rparr>"
    using z by simp
  show ?thesis
    using z unfolding n by simp
qed

section \<open>The state blocks of the oscillators\<close>

lemma run_integrated_triangle_frame:
  "b \<noteq> B_INT_TRI \<Longrightarrow>
     block_state b (snd (run_integrated_triangle_lfo lp)) = block_state b lp
     \<and> lfo_type (snd (run_integrated_triangle_lfo lp)) = lfo_type lp
     \<and> current_rate (snd (run_integrated_triangle_lfo lp)) = current_rate lp"
  by (cases b) (simp_all add: run_integrated_triangle_lfo_def Let_def)

lemma run_triangle_frame:
  "b \<noteq> B_TRI \<Longrightarrow>
     block_state b (snd (run_triangle_lfo lp)) = block_state b lp
     \<and> lfo_type (snd (run_triangle_lfo lp)) = lfo_type lp
     \<and> current_rate (snd (run_triangle_lfo lp)) = current_rate lp"
  by (cases b) (simp_all add: run_triangle_lfo_def Let_def)

lemma run_sine_frame:
  "b \<noteq> B_SINE \<Longrightarrow>
     block_state b (snd (run_sine_lfo lp)) = block_state b lp
     \<and> lfo_type (snd (run_sine_lfo lp)) = lfo_type lp
     \<and> current_rate (snd (run_sine_lfo lp)) = current_rate lp"
  by (cases b) (simp_all add: run_sine_lfo_def Let_def)

lemma run_rlx_frame:
  "b \<noteq> B_RELAX \<Longrightarrow>
     block_state b (snd (run_rlx_lfo lp)) = block_state b lp
     \<and> lfo_type (snd (run_rlx_lfo lp)) = lfo_type lp
     \<and> current_rate (snd (run_rlx_lfo lp)) = current_rate lp"
  by (cases b) (simp_all add: run_rlx_lfo_def Let_def)

lemma run_exp_frame:
  "b \<noteq> B_EXP \<Longrightarrow>
     block_state b (snd (run_exp_lfo lp)) = block_state b lp
     \<and> lfo_type (snd (run_exp_lfo lp)) = lfo_type lp
     \<and> current_rate (snd (run_exp_lfo lp)) = current_rate lp"
  by (cases b) (simp_all add: run_exp_lfo_def Let_def)

lemma run_lfo_frame:
  assumes "block_of (lfo_type lp) \<noteq> b"
  shows "block_state b (snd (run_lfo lp)) = block_state b lp
     \<and> lfo_type (snd (run_lfo lp)) = lfo_type lp
     \<and> current_rate (snd (run_lfo lp)) = current_rate lp"
proof (cases "lfo_type lp")
  case INT_TRI
  then show ?thesis using assms run_integrated_triangle_frame [of b lp] by (simp add: run_lfo_def)
next
  case TRI
  then show ?thesis using assms run_triangle_frame [of b lp] by (simp add: run_lfo_def)
next
  case SINE
  then show ?thesis using assms run_sine_frame [of b lp] by (simp add: run_lfo_def)
next
  case SQUARE
  then show ?thesis using assms run_sine_frame [of b lp]
    by (simp add: run_lfo_def split_beta)
next
  case EXP
  then show ?thesis using assms run_exp_frame [of b lp] by (simp add: run_lfo_def)
next
  case RELAX
  then show ?thesis using assms run_rlx_frame [of b lp] by (simp add: run_lfo_def)
next
  case HYPER
  then show ?thesis using assms run_integrated_triangle_frame [of b lp]
    by (simp add: run_lfo_def split_beta)
next
  case HYPER_SINE
  then show ?thesis using assms run_sine_frame [of b lp]
    by (simp add: run_lfo_def split_beta)
next
  case OTHER_TYPE
  then show ?thesis using assms run_integrated_triangle_frame [of b lp] by (simp add: run_lfo_def)
qed

lemma run_lfo_n_snd: "snd (run_lfo_n (Suc n) lp) = snd (run_lfo_n n (snd (run_lfo lp)))"
  by (simp add: split_beta)

lemma run_lfo_n_frame:
  "block_of (lfo_type lp) \<noteq> b \<Longrightarrow>
     block_state b (snd (run_lfo_n n lp)) = block_state b lp
     \<and> lfo_type (snd (run_lfo_n n lp)) = lfo_type lp
     \<and> current_rate (snd (run_lfo_n n lp)) = current_rate lp"
proof (induction n arbitrary: lp)
  case 0
  then show ?case by simp
next
  case (Suc n)
  note f = run_lfo_frame [OF Suc.prems]
  then have "block_of (lfo_type (snd (run_lfo lp))) \<noteq> b" using Suc.prems by simp
  from Suc.IH [OF this] f show ?case unfolding run_lfo_n_snd by simp
qed

lemma set_lfo_type_block: "block_state b (set_lfo_type lp t) = block_state b lp"
  by (cases b) (simp_all add: set_lfo_type_def)

text \<open>C3, as the code has it: a call of \<open>run_lfo\<close> changes only the state block that the
  selected type steps; every other block, the rate and the selected type are unchanged.
  So selecting a type that steps another block, stepping any number of times and
  selecting back leaves a block exactly as it was. \<open>SQUARE\<close> and \<open>HYPER_SINE\<close> step the
  block of \<open>SINE\<close>, and \<open>HYPER\<close> and an unknown type step the block of \<open>INT_TRI\<close>
  (\<open>block_of\<close>): between such types the hypothesis fails and the block advances.\<close>

theorem unselected_blocks_frozen:
  assumes "block_of t' \<noteq> b"
  shows "block_state b (snd (run_lfo (set_lfo_type lp t'))) = block_state b lp
       \<and> lfo_type (snd (run_lfo (set_lfo_type lp t'))) = t'
       \<and> current_rate (snd (run_lfo (set_lfo_type lp t'))) = current_rate lp
       \<and> block_state b (set_lfo_type (snd (run_lfo_n n (set_lfo_type lp t'))) t) = block_state b lp
       \<and> lfo_type (set_lfo_type (snd (run_lfo_n n (set_lfo_type lp t'))) t) = t
       \<and> current_rate (set_lfo_type (snd (run_lfo_n n (set_lfo_type lp t'))) t) = current_rate lp"
proof -
  have a: "block_of (lfo_type (set_lfo_type lp t')) \<noteq> b" using assms by (simp add: set_lfo_type_def)
  show ?thesis
    using run_lfo_frame [OF a] run_lfo_n_frame [OF a, of n]
    by (simp add: set_lfo_type_block) (simp add: set_lfo_type_def)
qed

text \<open>C3 as stated fails between types that share a block: with \<open>SINE\<close> active,
  selecting \<open>SQUARE\<close>, stepping once and selecting \<open>SINE\<close> again leaves the sine
  oscillator's state advanced by one step.\<close>

theorem square_advances_sine_state:
  "sin_part (set_lfo_type lfo8 SINE) = 0
   \<and> cos_part (set_lfo_type lfo8 SINE) = 1
   \<and> sin_part (set_lfo_type (snd (run_lfo (set_lfo_type (set_lfo_type lfo8 SINE) SQUARE))) SINE) = pi / 4
   \<and> cos_part (set_lfo_type (snd (run_lfo (set_lfo_type (set_lfo_type lfo8 SINE) SQUARE))) SINE)
       = 1 - pi / 4 * (pi / 4)
   \<and> pi / 4 \<noteq> (0 :: real)"
  by (simp add: set_lfo_type_def run_lfo_def run_sine_lfo_def lfo8_def Let_def)

theorem unselected_blocks_frozen_witness:
  "block_state B_SINE (set_lfo_type (snd (run_lfo_n 3 (set_lfo_type (set_lfo_type lfo8 SINE) TRI))) SINE)
     = ([], [pi / 4, 0, 1])
   \<and> block_state B_SINE (set_lfo_type lfo8 SINE) = ([], [pi / 4, 0, 1])
   \<and> lfo_type (set_lfo_type (snd (run_lfo_n 3 (set_lfo_type (set_lfo_type lfo8 SINE) TRI))) SINE) = SINE"
proof -
  have "block_of TRI \<noteq> B_SINE" by simp
  from unselected_blocks_frozen [OF this, of "set_lfo_type lfo8 SINE" 3 SINE]
  show ?thesis by (simp add: set_lfo_type_def lfo8_def)
qed

section \<open>The range of the oscillators\<close>

lemma run_lfo_n_all:
  assumes "I lp" and "\<And>lp. I lp \<Longrightarrow> I (snd (run_lfo lp)) \<and> P (fst (run_lfo lp))"
  shows "list_all P (fst (run_lfo_n n lp))"
  using assms(1)
proof (induction n arbitrary: lp)
  case 0
  then show ?case by simp
next
  case (Suc n)
  from assms(2) [OF Suc.prems] have "I (snd (run_lfo lp))" "P (fst (run_lfo lp))" by auto
  with Suc.IH [of "snd (run_lfo lp)"] show ?case by (simp add: split_beta)
qed

lemma integrated_triangle_range:
  "0 \<le> fst (run_integrated_triangle_lfo lp) \<and> fst (run_integrated_triangle_lfo lp) \<le> 1"
  by (simp add: run_integrated_triangle_lfo_def Let_def)

lemma integrated_triangle_type:
  "lfo_type (snd (run_integrated_triangle_lfo lp)) = lfo_type lp"
  by (simp add: run_integrated_triangle_lfo_def Let_def)

lemma run_sine_type: "lfo_type (snd (run_sine_lfo lp)) = lfo_type lp"
  by (simp add: run_sine_lfo_def Let_def)

lemma square_shape_range: "- (1 / 30) < square_shape v \<and> square_shape v < 31 / 30"
proof -
  define y where "y = v - 1 / 2"
  have e: "square_shape v =
      (if y > 0 then y * (1 / (1 + 30 * y)) else y * (1 / (1 - 30 * y))) * 16 + 1 / 2"
    by (simp only: square_shape_def Let_def y_def)
  show ?thesis
  proof (cases "y > 0")
    case True
    then have "y * (1 / (1 + 30 * y)) < 1 / 30" "0 < y * (1 / (1 + 30 * y))"
      by (simp_all add: field_simps)
    then show ?thesis unfolding e if_P [OF True] by linarith
  next
    case False
    then have "- (1 / 30) < y * (1 / (1 - 30 * y))" "y * (1 / (1 - 30 * y)) \<le> 0"
      by (simp_all add: field_simps)
    then show ?thesis unfolding e if_not_P [OF False] by linarith
  qed
qed

lemma hyper_range: "0 \<le> v \<Longrightarrow> v \<le> 1 \<Longrightarrow> 1 / 2 \<le> 1 - \<bar>v - 1 / 2\<bar> \<and> 1 - \<bar>v - 1 / 2\<bar> \<le> (1 :: real)"
  by linarith

lemma bound_int_tri:
  "t = INT_TRI \<or> t = OTHER_TYPE \<or> t = HYPER \<or> t = SQUARE \<Longrightarrow>
   list_all (output_bound fosc fs t) (fst (run_lfo_n n (set_lfo_type lp t)))"
proof (rule run_lfo_n_all [where I = "\<lambda>lp. lfo_type lp = t"])
  show "lfo_type (set_lfo_type lp t) = t" by (simp add: set_lfo_type_def)
next
  fix lp :: lfoparams
  assume t: "t = INT_TRI \<or> t = OTHER_TYPE \<or> t = HYPER \<or> t = SQUARE" and l: "lfo_type lp = t"
  note r = integrated_triangle_range [of lp]
  note ty = integrated_triangle_type [of lp] run_sine_type [of lp]
  note sq = square_shape_range [of "fst (run_sine_lfo lp)"]
  note hy = hyper_range [OF r [THEN conjunct1] r [THEN conjunct2]]
  from t show "lfo_type (snd (run_lfo lp)) = t \<and> output_bound fosc fs t (fst (run_lfo lp))"
    using l r ty sq hy by (auto simp: run_lfo_def split_beta simp del: abs_le_iff)
qed

lemma init_lfo_fields:
  assumes "init_lfo fosc fs phase = Inr lp0"
  shows "fs \<noteq> 0 \<and> fosc \<noteq> 0
     \<and> ktri lp0 = 2 * fosc / fs
     \<and> trilfo lp0 = (let q0 = 2 * fosc * phase / (360 * fosc);
                          q1 = (if q0 \<ge> 1 then q0 - 1 else q0)
                      in if q1 < 0 then 0 else q1)
     \<and> trisign lp0 = (let q0 = 2 * fosc * phase / (360 * fosc);
                           q1 = (if q0 \<ge> 1 then q0 - 1 else q0)
                       in if q1 < 0 then 1 else if q0 \<ge> 1 then - 1 else 1)
     \<and> ksin lp0 = pi * (2 * fosc) / fs
     \<and> sin_part lp0 = sin (2 * pi * phase / 360)
     \<and> cos_part lp0 = cos (2 * pi * phase / 360)
     \<and> rlx_k lp0 = exp (- 2 * fosc / fs) \<and> rlx_ik lp0 = 1 - exp (- 2 * fosc / fs)
     \<and> rlx_sign lp0 = 1 / (1 - 1 / exp 1) \<and> rlx_max lp0 = 1 / (1 - 1 / exp 1)
     \<and> rlx_min lp0 = 1 - 1 / (1 - 1 / exp 1) \<and> rlx_lfo lp0 = 0
     \<and> exp_ik lp0 = exp (- 2 * (13133 / 10000) * fosc / fs)
     \<and> exp_k lp0 = 1 / exp (- 2 * (13133 / 10000) * fosc / fs)
     \<and> exp_x lp0 = exp (- 2 * (13133 / 10000) * fosc / fs)
     \<and> exp_min lp0 = 1 / exp 1 \<and> exp_max lp0 = 1 + 1 / exp 1 \<and> exp_sv lp0 = 1 / exp 1"
proof -
  from assms have nz: "fs \<noteq> 0" "fosc \<noteq> 0"
    by (auto simp: init_lfo_def split: if_splits)
  from assms obtain d where "lp0 = \<lparr>startup_delay = d,
                  it_k = 2 * (1 / fs) * (2 * fosc), k_new = 2 * (1 / fs) * (2 * fosc),
                  nk = - 2 * (1 / fs) * (2 * fosc), nk_new = - 2 * (1 / fs) * (2 * fosc),
                  psign = 4 * (2 * fosc) * (2 * fosc) * (1 / fs) * (1 / fs),
                  psign_new = 4 * (2 * fosc) * (2 * fosc) * (1 / fs) * (1 / fs),
                  nsign = - (4 * (2 * fosc) * (2 * fosc) * (1 / fs) * (1 / fs)),
                  nsign_new = - (4 * (2 * fosc) * (2 * fosc) * (1 / fs) * (1 / fs)),
                  sign = 4 * (2 * fosc) * (2 * fosc) * (1 / fs) * (1 / fs),
                  sign_new = 4 * (2 * fosc) * (2 * fosc) * (1 / fs) * (1 / fs),
                  lfo = 0, it_x = 0,
                  ktri = 2 * fosc / fs,
                  trisign = (let q0 = 2 * fosc * phase / (360 * fosc);
                           q1 = (if q0 \<ge> 1 then q0 - 1 else q0)
                       in if q1 < 0 then 1 else if q0 \<ge> 1 then - 1 else 1),
                  trilfo = (let q0 = 2 * fosc * phase / (360 * fosc);
                          q1 = (if q0 \<ge> 1 then q0 - 1 else q0)
                      in if q1 < 0 then 0 else q1),
                  ksin = M_PI * (2 * fosc) / fs,
                  sin_part = sin (2 * M_PI * phase / 360),
                  cos_part = cos (2 * M_PI * phase / 360),
                  rlx_k = exp (- 2 * fosc / fs), rlx_ik = 1 - exp (- 2 * fosc / fs),
                  rlx_sign = 1 / (1 - 1 / M_E), rlx_max = 1 / (1 - 1 / M_E),
                  rlx_min = 1 - 1 / (1 - 1 / M_E), rlx_lfo = 0,
                  exp_ik = exp (- 2 * (13133 / 10000) * fosc / fs),
                  exp_k = 1 / exp (- 2 * (13133 / 10000) * fosc / fs),
                  exp_x = exp (- 2 * (13133 / 10000) * fosc / fs),
                  exp_min = 1 / M_E, exp_max = 1 + 1 / M_E, exp_sv = 1 / M_E,
                  current_rate = fosc, lfo_type = INT_TRI\<rparr>"
    unfolding init_lfo_def Let_def bind_def
    by (simp only: nz if_False simp_thms split: sum.splits prod.splits if_splits) auto
  then show ?thesis using nz by (simp add: M_E_def M_PI_def)
qed

lemma triangle_fields:
  "trilfo (snd (run_triangle_lfo lp)) = trilfo lp + ktri lp * trisign lp
   \<and> fst (run_triangle_lfo lp) = trilfo lp + ktri lp * trisign lp
   \<and> trisign (snd (run_triangle_lfo lp)) =
       (if trilfo lp + ktri lp * trisign lp \<ge> 1 then - 1
        else if trilfo lp + ktri lp * trisign lp \<le> 0 then 1 else trisign lp)
   \<and> ktri (snd (run_triangle_lfo lp)) = ktri lp
   \<and> lfo_type (snd (run_triangle_lfo lp)) = lfo_type lp"
  by (simp add: run_triangle_lfo_def Let_def)

lemma tri_arith:
  fixes a g k :: real
  assumes "0 \<le> k" "g = 1 \<and> - k \<le> a \<and> a < 1 \<or> g = - 1 \<and> 0 \<le> a \<and> a \<le> 1 + k"
  shows "((if a + k * g \<ge> 1 then - 1 else if a + k * g \<le> 0 then 1 else g) = 1
          \<and> - k \<le> a + k * g \<and> a + k * g < 1
        \<or> (if a + k * g \<ge> 1 then - 1 else if a + k * g \<le> 0 then 1 else g) = - 1
          \<and> 0 \<le> a + k * g \<and> a + k * g \<le> 1 + k)
       \<and> - k \<le> a + k * g \<and> a + k * g \<le> 1 + k"
  using assms by auto

lemma triangle_step:
  assumes "0 \<le> k" "tri_inv k lp"
  shows "tri_inv k (snd (run_lfo lp)) \<and> - k \<le> fst (run_lfo lp) \<and> fst (run_lfo lp) \<le> 1 + k"
proof -
  have t: "lfo_type lp = TRI" and kk: "ktri lp = k"
    and inv: "trisign lp = 1 \<and> - k \<le> trilfo lp \<and> trilfo lp < 1
              \<or> trisign lp = - 1 \<and> 0 \<le> trilfo lp \<and> trilfo lp \<le> 1 + k"
    using assms(2) by (simp_all add: tri_inv_def)
  have r: "run_lfo lp = run_triangle_lfo lp" using t by (simp add: run_lfo_def)
  have f: "trilfo (snd (run_triangle_lfo lp)) = trilfo lp + k * trisign lp"
    "fst (run_triangle_lfo lp) = trilfo lp + k * trisign lp"
    "trisign (snd (run_triangle_lfo lp)) =
       (if trilfo lp + k * trisign lp \<ge> 1 then - 1
        else if trilfo lp + k * trisign lp \<le> 0 then 1 else trisign lp)"
    "ktri (snd (run_triangle_lfo lp)) = k"
    "lfo_type (snd (run_triangle_lfo lp)) = TRI"
    using triangle_fields [of lp] kk t by simp_all
  show ?thesis
    unfolding r tri_inv_def f
    using tri_arith [OF assms(1) inv] by blast
qed

lemma init_tri_inv:
  assumes "init_lfo fosc fs phase = Inr lp0" "0 < fosc" "0 < fs" "phase < 360"
  shows "tri_inv (2 * fosc / fs) (set_lfo_type lp0 TRI)"
proof -
  have q: "2 * fosc * phase / (360 * fosc) = phase / 180" using assms(2) by simp
  have f: "ktri lp0 = 2 * fosc / fs"
    "trilfo lp0 = (if (if phase / 180 \<ge> 1 then phase / 180 - 1 else phase / 180) < 0 then 0
                   else (if phase / 180 \<ge> 1 then phase / 180 - 1 else phase / 180))"
    "trisign lp0 = (if (if phase / 180 \<ge> 1 then phase / 180 - 1 else phase / 180) < 0 then 1
                    else if phase / 180 \<ge> 1 then - 1 else 1)"
    using init_lfo_fields [OF assms(1)] unfolding q Let_def by blast+
  have k0: "0 \<le> 2 * fosc / fs" using assms(2,3) by simp
  define p where "p = phase / 180"
  have p2: "p < 2" using assms(4) by (simp add: p_def)
  have "(if (if p \<ge> 1 then p - 1 else p) < 0 then 1 else if p \<ge> 1 then - 1 else 1) = (1 :: real)
          \<and> - (2 * fosc / fs) \<le> (if (if p \<ge> 1 then p - 1 else p) < 0 then 0 else (if p \<ge> 1 then p - 1 else p))
          \<and> (if (if p \<ge> 1 then p - 1 else p) < 0 then 0 else (if p \<ge> 1 then p - 1 else p)) < 1
        \<or> (if (if p \<ge> 1 then p - 1 else p) < 0 then 1 else if p \<ge> 1 then - 1 else 1) = (- 1 :: real)
          \<and> 0 \<le> (if (if p \<ge> 1 then p - 1 else p) < 0 then 0 else (if p \<ge> 1 then p - 1 else p))
          \<and> (if (if p \<ge> 1 then p - 1 else p) < 0 then 0 else (if p \<ge> 1 then p - 1 else p)) \<le> 1 + 2 * fosc / fs"
    using p2 k0 by auto
  then show ?thesis
    unfolding tri_inv_def p_def
    by (simp only: set_lfo_type_def f lfoparams.simps simp_thms)
      (simp add: f)
qed

lemma bound_tri:
  assumes "init_lfo fosc fs phase = Inr lp0" "0 < fosc" "0 < fs" "phase < 360"
  shows "list_all (output_bound fosc fs TRI) (fst (run_lfo_n n (set_lfo_type lp0 TRI)))"
proof (rule run_lfo_n_all [where I = "tri_inv (2 * fosc / fs)"])
  show "tri_inv (2 * fosc / fs) (set_lfo_type lp0 TRI)" by (rule init_tri_inv [OF assms])
next
  fix lp
  assume "tri_inv (2 * fosc / fs) lp"
  moreover have "0 \<le> 2 * fosc / fs" using assms(2,3) by simp
  ultimately show "tri_inv (2 * fosc / fs) (snd (run_lfo lp)) \<and> output_bound fosc fs TRI (fst (run_lfo lp))"
    using triangle_step [of "2 * fosc / fs" lp] by simp
qed

lemma exp_fields:
  "exp_sv (snd (run_exp_lfo lp)) = exp_sv lp * exp_x lp
   \<and> fst (run_exp_lfo lp) = exp_sv lp * exp_x lp - exp_min lp
   \<and> exp_x (snd (run_exp_lfo lp)) =
       (if exp_sv lp * exp_x lp \<ge> exp_max lp then exp_ik lp
        else if exp_sv lp * exp_x lp \<le> exp_min lp then exp_k lp else exp_x lp)
   \<and> exp_ik (snd (run_exp_lfo lp)) = exp_ik lp
   \<and> exp_k (snd (run_exp_lfo lp)) = exp_k lp
   \<and> exp_min (snd (run_exp_lfo lp)) = exp_min lp
   \<and> exp_max (snd (run_exp_lfo lp)) = exp_max lp
   \<and> lfo_type (snd (run_exp_lfo lp)) = lfo_type lp"
  by (simp add: run_exp_lfo_def Let_def)

lemma exp_arith:
  fixes sv x ke m M :: real
  assumes "0 < ke" "ke \<le> 1" "0 < m" "m < M"
    and "x = 1 / ke \<and> m * ke \<le> sv \<and> sv < M \<or> x = ke \<and> m \<le> sv \<and> sv \<le> M / ke"
  shows "((if sv * x \<ge> M then ke else if sv * x \<le> m then 1 / ke else x) = 1 / ke
            \<and> m * ke \<le> sv * x \<and> sv * x < M
          \<or> (if sv * x \<ge> M then ke else if sv * x \<le> m then 1 / ke else x) = ke
            \<and> m \<le> sv * x \<and> sv * x \<le> M / ke)
         \<and> m * ke \<le> sv * x \<and> sv * x \<le> M / ke"
proof -
  have mk: "m * ke \<le> m" using assms(1,2,3) by (simp add: mult_left_le)
  have Mk: "M \<le> M / ke" using assms(1,2,3,4) by (simp add: pos_le_divide_eq mult_left_le)
  from assms(5) show ?thesis
  proof
    assume a: "x = 1 / ke \<and> m * ke \<le> sv \<and> sv < M"
    then have lo: "m \<le> sv * x" using assms(1) by (simp add: pos_le_divide_eq)
    have hi: "sv * x < M / ke" using a assms(1) by (simp add: divide_strict_right_mono)
    show ?thesis using lo hi mk Mk a assms(4) by auto
  next
    assume a: "x = ke \<and> m \<le> sv \<and> sv \<le> M / ke"
    then have lo: "m * ke \<le> sv * x" using assms(1) by simp
    have hi: "sv * x \<le> M" using a assms(1) by (simp add: pos_le_divide_eq)
    show ?thesis using lo hi mk Mk a assms(4) by auto
  qed
qed

lemma exp_step:
  assumes "0 < ke" "ke \<le> 1" "0 < m" "m < M" "exp_inv ke m M lp"
  shows "exp_inv ke m M (snd (run_lfo lp))
         \<and> m * ke - m \<le> fst (run_lfo lp) \<and> fst (run_lfo lp) \<le> M / ke - m"
proof -
  have t: "lfo_type lp = EXP" and c: "exp_ik lp = ke" "exp_k lp = 1 / ke" "exp_min lp = m" "exp_max lp = M"
    and inv: "exp_x lp = 1 / ke \<and> m * ke \<le> exp_sv lp \<and> exp_sv lp < M
              \<or> exp_x lp = ke \<and> m \<le> exp_sv lp \<and> exp_sv lp \<le> M / ke"
    using assms(5) by (simp_all add: exp_inv_def)
  have r: "run_lfo lp = run_exp_lfo lp" using t by (simp add: run_lfo_def)
  have f: "exp_sv (snd (run_exp_lfo lp)) = exp_sv lp * exp_x lp"
    "fst (run_exp_lfo lp) = exp_sv lp * exp_x lp - m"
    "exp_x (snd (run_exp_lfo lp)) =
       (if exp_sv lp * exp_x lp \<ge> M then ke
        else if exp_sv lp * exp_x lp \<le> m then 1 / ke else exp_x lp)"
    "exp_ik (snd (run_exp_lfo lp)) = ke"
    "exp_k (snd (run_exp_lfo lp)) = 1 / ke"
    "exp_min (snd (run_exp_lfo lp)) = m"
    "exp_max (snd (run_exp_lfo lp)) = M"
    "lfo_type (snd (run_exp_lfo lp)) = EXP"
    using exp_fields [of lp] c t by simp_all
  show ?thesis
    unfolding r exp_inv_def f
    using exp_arith [OF assms(1,2,3,4) inv] by auto
qed

lemma exp1_gt_1: "1 < exp (1 :: real)"
  by simp

lemma bound_exp:
  assumes "init_lfo fosc fs phase = Inr lp0" "0 < fosc" "0 < fs"
  shows "list_all (output_bound fosc fs EXP) (fst (run_lfo_n n (set_lfo_type lp0 EXP)))"
proof -
  define ke where "ke = exp (- 2 * (13133 / 10000) * fosc / fs)"
  define m :: real where "m = 1 / exp 1"
  define M :: real where "M = 1 + 1 / exp 1"
  have "0 < fosc / fs" using assms(2,3) by simp
  then have ke: "0 < ke" "ke \<le> 1" by (simp_all add: ke_def)
  have m: "0 < m" "m < M" by (simp_all add: m_def M_def)
  have f: "exp_ik lp0 = ke" "exp_k lp0 = 1 / ke" "exp_x lp0 = ke" "exp_min lp0 = m"
    "exp_max lp0 = M" "exp_sv lp0 = m"
    using init_lfo_fields [OF assms(1)] unfolding ke_def m_def M_def by blast+
  have "M * ke \<le> M" using ke m by (simp add: mult_left_le)
  then have "M \<le> M / ke" using ke(1) by (simp add: pos_le_divide_eq)
  then have "m \<le> M / ke" using m(2) by linarith
  then have i0: "exp_inv ke m M (set_lfo_type lp0 EXP)"
    by (simp add: exp_inv_def set_lfo_type_def f)
  have b: "output_bound fosc fs EXP v" if "m * ke - m \<le> v" "v \<le> M / ke - m" for v
    using that by (simp add: ke_def m_def M_def field_simps)
  show ?thesis
  proof (rule run_lfo_n_all [where I = "exp_inv ke m M", OF i0])
    fix lp
    assume "exp_inv ke m M lp"
    from exp_step [OF ke m this] b
    show "exp_inv ke m M (snd (run_lfo lp)) \<and> output_bound fosc fs EXP (fst (run_lfo lp))"
      by blast
  qed
qed

lemma rlx_fields:
  "rlx_lfo (snd (run_rlx_lfo lp)) = rlx_sign lp * rlx_ik lp + rlx_k lp * rlx_lfo lp
   \<and> fst (run_rlx_lfo lp) = rlx_sign lp * rlx_ik lp + rlx_k lp * rlx_lfo lp
   \<and> rlx_sign (snd (run_rlx_lfo lp)) =
       (if rlx_sign lp * rlx_ik lp + rlx_k lp * rlx_lfo lp \<ge> 1 then rlx_min lp
        else if rlx_sign lp * rlx_ik lp + rlx_k lp * rlx_lfo lp \<le> 0 then rlx_max lp
        else rlx_sign lp)
   \<and> rlx_k (snd (run_rlx_lfo lp)) = rlx_k lp
   \<and> rlx_ik (snd (run_rlx_lfo lp)) = rlx_ik lp
   \<and> rlx_max (snd (run_rlx_lfo lp)) = rlx_max lp
   \<and> rlx_min (snd (run_rlx_lfo lp)) = rlx_min lp
   \<and> lfo_type (snd (run_rlx_lfo lp)) = lfo_type lp"
  by (simp add: run_rlx_lfo_def Let_def)

lemma rlx_arith:
  fixes y g kr ie :: real
  assumes "0 < kr" "kr \<le> 1" "1 < ie"
    and "g = ie \<and> - ((ie - 1) * (1 - kr)) \<le> y \<and> y < 1
         \<or> g = 1 - ie \<and> 0 \<le> y \<and> y \<le> 1 + (ie - 1) * (1 - kr)"
  shows "((if g * (1 - kr) + kr * y \<ge> 1 then 1 - ie
           else if g * (1 - kr) + kr * y \<le> 0 then ie else g) = ie
            \<and> - ((ie - 1) * (1 - kr)) \<le> g * (1 - kr) + kr * y \<and> g * (1 - kr) + kr * y < 1
          \<or> (if g * (1 - kr) + kr * y \<ge> 1 then 1 - ie
              else if g * (1 - kr) + kr * y \<le> 0 then ie else g) = 1 - ie
            \<and> 0 \<le> g * (1 - kr) + kr * y \<and> g * (1 - kr) + kr * y \<le> 1 + (ie - 1) * (1 - kr))
         \<and> - ((ie - 1) * (1 - kr)) \<le> g * (1 - kr) + kr * y
         \<and> g * (1 - kr) + kr * y \<le> 1 + (ie - 1) * (1 - kr)"
proof -
  define d where "d = (ie - 1) * (1 - kr)"
  have d0: "0 \<le> d" using assms(1,2,3) by (simp add: d_def)
  have kd: "kr * d \<le> d" using d0 assms(1,2) by (simp add: mult_left_le_one_le)
  from assms(4) show ?thesis
  proof
    assume a: "g = ie \<and> - ((ie - 1) * (1 - kr)) \<le> y \<and> y < 1"
    have g: "g = ie" using a by simp
    have e: "g * (1 - kr) + kr * y = 1 + d - kr * (1 - y)"
      unfolding g d_def by (simp add: algebra_simps)
    have "0 < kr * (1 - y)" using a assms(1) by simp
    then have hi: "g * (1 - kr) + kr * y < 1 + d" unfolding e by simp
    have "- d \<le> y" using a by (simp add: d_def)
    then have "kr * (- d) \<le> kr * y" using assms(1) by (simp only: mult_le_cancel_left_pos)
    moreover have "0 \<le> ie * (1 - kr)" using assms(2,3) by simp
    ultimately have lo: "- d \<le> g * (1 - kr) + kr * y" using kd a by simp
    show ?thesis using lo hi a d0 unfolding d_def [symmetric] by auto
  next
    assume a: "g = 1 - ie \<and> 0 \<le> y \<and> y \<le> 1 + (ie - 1) * (1 - kr)"
    have g: "g = 1 - ie" using a by simp
    have e: "g * (1 - kr) + kr * y = - d + kr * y"
      unfolding g d_def by (simp add: algebra_simps)
    have "0 \<le> kr * y" using a assms(1) by simp
    then have lo: "- d \<le> g * (1 - kr) + kr * y" unfolding e by simp
    have "y \<le> 1 + d" using a by (simp add: d_def)
    then have "kr * y \<le> kr * (1 + d)" using assms(1) by (simp only: mult_le_cancel_left_pos)
    also have "\<dots> \<le> 1 + d" using kd assms(2) by (simp add: algebra_simps)
    finally have hi: "g * (1 - kr) + kr * y \<le> 1 + d" unfolding e using d0 by simp
    show ?thesis using lo hi a d0 assms(3) unfolding d_def [symmetric] by auto
  qed
qed

lemma rlx_step:
  assumes "0 < kr" "kr \<le> 1" "1 < ie" "rlx_inv kr ie lp"
  shows "rlx_inv kr ie (snd (run_lfo lp))
         \<and> - ((ie - 1) * (1 - kr)) \<le> fst (run_lfo lp)
         \<and> fst (run_lfo lp) \<le> 1 + (ie - 1) * (1 - kr)"
proof -
  have t: "lfo_type lp = RELAX" and c: "rlx_k lp = kr" "rlx_ik lp = 1 - kr" "rlx_max lp = ie"
      "rlx_min lp = 1 - ie"
    and inv: "rlx_sign lp = ie \<and> - ((ie - 1) * (1 - kr)) \<le> rlx_lfo lp \<and> rlx_lfo lp < 1
      \<or> rlx_sign lp = 1 - ie \<and> 0 \<le> rlx_lfo lp \<and> rlx_lfo lp \<le> 1 + (ie - 1) * (1 - kr)"
    using assms(4) by (simp_all add: rlx_inv_def)
  have r: "run_lfo lp = run_rlx_lfo lp" using t by (simp add: run_lfo_def)
  have f: "rlx_lfo (snd (run_rlx_lfo lp)) = rlx_sign lp * (1 - kr) + kr * rlx_lfo lp"
    "fst (run_rlx_lfo lp) = rlx_sign lp * (1 - kr) + kr * rlx_lfo lp"
    "rlx_sign (snd (run_rlx_lfo lp)) =
       (if rlx_sign lp * (1 - kr) + kr * rlx_lfo lp \<ge> 1 then 1 - ie
        else if rlx_sign lp * (1 - kr) + kr * rlx_lfo lp \<le> 0 then ie
        else rlx_sign lp)"
    "rlx_k (snd (run_rlx_lfo lp)) = kr"
    "rlx_ik (snd (run_rlx_lfo lp)) = 1 - kr"
    "rlx_max (snd (run_rlx_lfo lp)) = ie"
    "rlx_min (snd (run_rlx_lfo lp)) = 1 - ie"
    "lfo_type (snd (run_rlx_lfo lp)) = RELAX"
    using rlx_fields [of lp] c t by simp_all
  show ?thesis
    unfolding r rlx_inv_def f
    using rlx_arith [OF assms(1,2,3) inv] by auto
qed

lemma bound_rlx:
  assumes "init_lfo fosc fs phase = Inr lp0" "0 < fosc" "0 < fs"
  shows "list_all (output_bound fosc fs RELAX) (fst (run_lfo_n n (set_lfo_type lp0 RELAX)))"
proof -
  define kr where "kr = exp (- 2 * fosc / fs)"
  define ie :: real where "ie = 1 / (1 - 1 / exp 1)"
  have "0 < fosc / fs" using assms(2,3) by simp
  then have kr: "0 < kr" "kr \<le> 1" by (simp_all add: kr_def)
  have e1: "1 < exp (1 :: real)" by simp
  then have "0 < 1 - 1 / exp (1 :: real)" "1 - 1 / exp (1 :: real) < 1" by simp_all
  then have ie: "1 < ie" unfolding ie_def by (simp add: field_simps)
  have ie1: "ie - 1 = 1 / (exp 1 - 1)"
    unfolding ie_def using e1 by (simp add: field_simps)
  have f: "rlx_k lp0 = kr" "rlx_ik lp0 = 1 - kr" "rlx_sign lp0 = ie" "rlx_max lp0 = ie"
    "rlx_min lp0 = 1 - ie" "rlx_lfo lp0 = 0"
    using init_lfo_fields [OF assms(1)] unfolding kr_def ie_def by blast+
  have "0 \<le> (ie - 1) * (1 - kr)" using ie kr by simp
  then have i0: "rlx_inv kr ie (set_lfo_type lp0 RELAX)"
    by (simp add: rlx_inv_def set_lfo_type_def f)
  have b: "output_bound fosc fs RELAX v"
    if "- ((ie - 1) * (1 - kr)) \<le> v" "v \<le> 1 + (ie - 1) * (1 - kr)" for v
    using that unfolding ie1 by (simp add: kr_def)
  show ?thesis
  proof (rule run_lfo_n_all [where I = "rlx_inv kr ie", OF i0])
    fix lp
    assume "rlx_inv kr ie lp"
    from rlx_step [OF kr ie this] b
    show "rlx_inv kr ie (snd (run_lfo lp)) \<and> output_bound fosc fs RELAX (fst (run_lfo lp))"
      by blast
  qed
qed

lemma sine_fields:
  "sin_part (snd (run_sine_lfo lp)) = sin_part lp + cos_part lp * ksin lp
   \<and> cos_part (snd (run_sine_lfo lp)) = cos_part lp - (sin_part lp + cos_part lp * ksin lp) * ksin lp
   \<and> fst (run_sine_lfo lp) = 1 / 2 * (1 + (cos_part lp - (sin_part lp + cos_part lp * ksin lp) * ksin lp))
   \<and> ksin (snd (run_sine_lfo lp)) = ksin lp
   \<and> lfo_type (snd (run_sine_lfo lp)) = lfo_type lp"
  by (simp add: run_sine_lfo_def Let_def)

lemma sine_energy:
  fixes s c k :: real
  shows "(s + c * k)\<^sup>2 + (c - (s + c * k) * k)\<^sup>2 + k * (s + c * k) * (c - (s + c * k) * k)
         = s\<^sup>2 + c\<^sup>2 + k * s * c"
  by (simp add: power2_eq_square algebra_simps)

lemma sine_amplitude:
  fixes s c k :: real
  assumes "0 \<le> k" "k < 2" "s\<^sup>2 + c\<^sup>2 + k * s * c \<le> 1 + k / 2"
  shows "c\<^sup>2 * (2 - k) \<le> 2"
proof -
  have "0 \<le> (2 * s + k * c)\<^sup>2" by simp
  then have "0 \<le> 4 * s\<^sup>2 + 4 * k * s * c + k\<^sup>2 * c\<^sup>2"
    by (simp add: power2_eq_square algebra_simps)
  moreover have "4 * s\<^sup>2 + 4 * c\<^sup>2 + 4 * k * s * c \<le> 4 + 2 * k" using assms(3) by simp
  ultimately have "4 * c\<^sup>2 - k\<^sup>2 * c\<^sup>2 \<le> 4 + 2 * k" by linarith
  moreover have "4 * c\<^sup>2 - k\<^sup>2 * c\<^sup>2 = (c\<^sup>2 * (2 - k)) * (2 + k)"
    by (simp add: power2_eq_square algebra_simps)
  ultimately have "(c\<^sup>2 * (2 - k)) * (2 + k) \<le> 2 * (2 + k)" by simp
  moreover have "0 < 2 + k" using assms(1) by simp
  ultimately show ?thesis by (simp only: mult_le_cancel_right_pos)
qed

lemma sine_step:
  assumes "0 \<le> k" "k < 2" "sine_inv t k lp"
  shows "sine_inv t k (snd (run_sine_lfo lp))
         \<and> (2 * fst (run_sine_lfo lp) - 1)\<^sup>2 * (2 - k) \<le> 2"
proof -
  have c: "lfo_type lp = t" "ksin lp = k"
    and q: "(sin_part lp)\<^sup>2 + (cos_part lp)\<^sup>2 + k * sin_part lp * cos_part lp \<le> 1 + k / 2"
    using assms(3) by (simp_all add: sine_inv_def)
  define s' where "s' = sin_part lp + cos_part lp * k"
  define c' where "c' = cos_part lp - s' * k"
  have f: "sin_part (snd (run_sine_lfo lp)) = s'" "cos_part (snd (run_sine_lfo lp)) = c'"
    "fst (run_sine_lfo lp) = 1 / 2 * (1 + c')" "ksin (snd (run_sine_lfo lp)) = k"
    "lfo_type (snd (run_sine_lfo lp)) = t"
    using sine_fields [of lp] c by (simp_all add: s'_def c'_def)
  have q': "s'\<^sup>2 + c'\<^sup>2 + k * s' * c' \<le> 1 + k / 2"
    unfolding c'_def s'_def sine_energy by (rule q)
  have "2 * (1 / 2 * (1 + c')) - 1 = c'" by (simp add: field_simps)
  then show ?thesis
    unfolding sine_inv_def f using q' sine_amplitude [OF assms(1,2) q'] by simp
qed

lemma init_sine_inv:
  assumes "init_lfo fosc fs phase = Inr lp0" "0 < fosc" "0 < fs"
  shows "sine_inv t (pi * (2 * fosc) / fs) (set_lfo_type lp0 t)"
proof -
  define th where "th = 2 * pi * phase / 360"
  define k where "k = pi * (2 * fosc) / fs"
  have f: "ksin lp0 = k" "sin_part lp0 = sin th" "cos_part lp0 = cos th"
    using init_lfo_fields [OF assms(1)] unfolding th_def k_def by blast+
  have k0: "0 \<le> k" using assms(2,3) by (simp add: k_def)
  have "0 \<le> (sin th - cos th)\<^sup>2" by simp
  then have "2 * (sin th * cos th) \<le> (sin th)\<^sup>2 + (cos th)\<^sup>2"
    by (simp add: power2_eq_square algebra_simps)
  then have "sin th * cos th \<le> 1 / 2" by simp
  then have "k * (sin th * cos th) \<le> k * (1 / 2)" using k0 by (rule mult_left_mono)
  then have "(sin th)\<^sup>2 + (cos th)\<^sup>2 + k * sin th * cos th \<le> 1 + k / 2"
    by (simp add: mult.assoc)
  then show ?thesis
    unfolding k_def [symmetric] by (simp add: sine_inv_def set_lfo_type_def f)
qed

lemma bound_sine:
  assumes "init_lfo fosc fs phase = Inr lp0" "0 < fosc" "0 < fs" "pi * (2 * fosc) / fs < 2"
    and "t = SINE \<or> t = HYPER_SINE"
  shows "list_all (output_bound fosc fs t) (fst (run_lfo_n n (set_lfo_type lp0 t)))"
proof -
  define k where "k = pi * (2 * fosc) / fs"
  have k: "0 \<le> k" "k < 2" using assms(2,3,4) by (simp_all add: k_def)
  show ?thesis
  proof (rule run_lfo_n_all [where I = "sine_inv t k"])
    show "sine_inv t k (set_lfo_type lp0 t)" unfolding k_def by (rule init_sine_inv [OF assms(1,2,3)])
  next
    fix lp
    assume i: "sine_inv t k lp"
    then have ty: "lfo_type lp = t" by (simp add: sine_inv_def)
    note st = sine_step [OF k i]
    from assms(5) show "sine_inv t k (snd (run_lfo lp)) \<and> output_bound fosc fs t (fst (run_lfo lp))"
    proof
      assume t: "t = SINE"
      then have "run_lfo lp = run_sine_lfo lp" using ty by (simp add: run_lfo_def)
      then show ?thesis using st t by (simp add: k_def)
    next
      assume t: "t = HYPER_SINE"
      define v where "v = fst (run_sine_lfo lp)"
      have r: "run_lfo lp = (1 - \<bar>v - 1 / 2\<bar>, snd (run_sine_lfo lp))"
        using ty t by (simp add: run_lfo_def split_beta v_def)
      have "(2 * (1 - (1 - \<bar>v - 1 / 2\<bar>)))\<^sup>2 = (2 * v - 1)\<^sup>2"
      proof -
        have "(2 * (1 - (1 - \<bar>v - 1 / 2\<bar>)))\<^sup>2 = (2 * \<bar>v - 1 / 2\<bar>)\<^sup>2" by simp
        also have "\<dots> = 4 * (v - 1 / 2)\<^sup>2" by (simp add: power_mult_distrib)
        also have "\<dots> = (2 * v - 1)\<^sup>2" by (simp add: power2_eq_square algebra_simps)
        finally show ?thesis .
      qed
      moreover have "1 - \<bar>v - 1 / 2\<bar> \<le> 1" by simp
      ultimately show ?thesis
        unfolding r using st t by (simp add: k_def v_def del: abs_le_iff)
    qed
  qed
qed

text \<open>The triangle passes its turning point whenever the step does not divide 1: at
  11 Hz and 44100 Hz the 2005th value is 4411/4410.\<close>

lemma run_lfo_n_snoc:
  "run_lfo_n (Suc n) lp =
     (fst (run_lfo_n n lp) @ [fst (run_lfo (snd (run_lfo_n n lp)))],
      snd (run_lfo (snd (run_lfo_n n lp))))"
proof (induction n arbitrary: lp)
  case 0
  then show ?case by (simp add: split_beta)
next
  case (Suc n)
  have "run_lfo_n (Suc (Suc n)) lp =
      (fst (run_lfo lp) # fst (run_lfo_n (Suc n) (snd (run_lfo lp))),
       snd (run_lfo_n (Suc n) (snd (run_lfo lp))))"
    by (simp add: split_beta)
  also have "\<dots> = (fst (run_lfo_n (Suc n) lp) @ [fst (run_lfo (snd (run_lfo_n (Suc n) lp)))],
      snd (run_lfo (snd (run_lfo_n (Suc n) lp))))"
    unfolding Suc.IH [of "snd (run_lfo lp)"] by (simp add: split_beta)
  finally show ?case .
qed

lemma length_run_lfo_n: "length (fst (run_lfo_n n lp)) = n"
  by (induction n arbitrary: lp) (simp_all add: split_beta)

lemma triangle_ramp:
  assumes "lfo_type lp = TRI" "trisign lp = 1" "0 < ktri lp"
    and "trilfo lp + real n * ktri lp < 1"
  shows "trilfo (snd (run_lfo_n n lp)) = trilfo lp + real n * ktri lp
         \<and> trisign (snd (run_lfo_n n lp)) = 1
         \<and> ktri (snd (run_lfo_n n lp)) = ktri lp
         \<and> lfo_type (snd (run_lfo_n n lp)) = TRI"
  using assms(4)
proof (induction n)
  case 0
  then show ?case using assms(1,2) by simp
next
  case (Suc n)
  define lp1 where "lp1 = snd (run_lfo_n n lp)"
  have "trilfo lp + real n * ktri lp < trilfo lp + real (Suc n) * ktri lp"
    using assms(3) by (simp add: algebra_simps)
  with Suc.prems have "trilfo lp + real n * ktri lp < 1" by linarith
  from Suc.IH [OF this] have s: "trilfo lp1 = trilfo lp + real n * ktri lp" "trisign lp1 = 1"
    "ktri lp1 = ktri lp" "lfo_type lp1 = TRI" by (simp_all add: lp1_def)
  have r: "run_lfo lp1 = run_triangle_lfo lp1" using s(4) by (simp add: run_lfo_def)
  have e: "trilfo lp1 + ktri lp1 * trisign lp1 = trilfo lp + real (Suc n) * ktri lp"
    using s by (simp add: algebra_simps)
  have "snd (run_lfo_n (Suc n) lp) = snd (run_triangle_lfo lp1)"
    unfolding run_lfo_n_snoc lp1_def [symmetric] r by simp
  then show ?case
    using triangle_fields [of lp1] Suc.prems s unfolding e by simp
qed

lemma triangle_passes_one:
  assumes "init_lfo 11 44100 0 = Inr lp0"
  shows "fst (run_lfo_n 2005 (set_lfo_type lp0 TRI)) ! 2004 = 4411 / 4410"
proof -
  define lp where "lp = set_lfo_type lp0 TRI"
  have f: "ktri lp = 11 / 22050" "trilfo lp = 0" "trisign lp = 1" "lfo_type lp = TRI"
    using init_lfo_fields [OF assms] by (simp_all add: lp_def set_lfo_type_def Let_def)
  have "trilfo lp + real 2004 * ktri lp < 1" by (simp add: f)
  from triangle_ramp [OF f(4) f(3) _ this]
  have s: "trilfo (snd (run_lfo_n 2004 lp)) = 3674 / 3675" "trisign (snd (run_lfo_n 2004 lp)) = 1"
    "ktri (snd (run_lfo_n 2004 lp)) = 11 / 22050" "lfo_type (snd (run_lfo_n 2004 lp)) = TRI"
    by (simp_all add: f)
  have "fst (run_lfo (snd (run_lfo_n 2004 lp))) = 4411 / 4410"
    using triangle_fields [of "snd (run_lfo_n 2004 lp)"] s by (simp add: run_lfo_def)
  moreover have "fst (run_lfo_n (Suc 2004) lp) ! 2004 = fst (run_lfo (snd (run_lfo_n 2004 lp)))"
    unfolding run_lfo_n_snoc by (simp add: nth_append length_run_lfo_n)
  moreover have "Suc 2004 = 2005" by simp
  ultimately show ?thesis unfolding lp_def by simp
qed

text \<open>C8, as the code has it: for an oscillator initialised with positive frequency and
  sample rate, a phase below 360 degrees and \<open>ksin < 2\<close>, every value \<open>run_lfo\<close> returns,
  over any number of steps, lies in the interval \<open>output_bound\<close> gives for the selected
  type: [0, 1] for the integrated triangle, [1/2, 1] for hyper, and for the triangle, the
  exponential and the relaxation oscillator [0, 1] widened by at most one step of the
  recurrence at each end; the sine oscillator's raw state satisfies
  \<open>c\<^sup>2 * (2 - ksin) \<le> 2\<close>, and the square stays within (-1/30, 31/30).\<close>

theorem lfo_output_bounds:
  assumes "init_lfo fosc fs phase = Inr lp0" "0 < fosc" "0 < fs" "phase < 360"
    and "pi * (2 * fosc) / fs < 2"
  shows "list_all (output_bound fosc fs t) (fst (run_lfo_n n (set_lfo_type lp0 t)))"
proof (cases t)
  case TRI
  then show ?thesis using bound_tri [OF assms(1,2,3,4)] by simp
next
  case EXP
  then show ?thesis using bound_exp [OF assms(1,2,3)] by simp
next
  case RELAX
  then show ?thesis using bound_rlx [OF assms(1,2,3)] by simp
next
  case SINE
  then show ?thesis using bound_sine [OF assms(1,2,3,5)] by simp
next
  case HYPER_SINE
  then show ?thesis using bound_sine [OF assms(1,2,3,5)] by simp
qed (use bound_int_tri in simp_all)

lemma lfo44100_init: "init_lfo (1 / 10) 44100 0 = Inr lfo44100"
  by (simp add: init_lfo_def Let_def float_to_int_def trunc_def INT_MIN_def INT_MAX_def
      M_E_def M_PI_def lfo44100_def)

text \<open>C8 as stated fails: with the program's own initialisation (0.1 Hz, 44100 Hz, phase
  0) the first value of the exponential oscillator is negative. \<open>init_lfo\<close> starts it at its
  lower bound with the decaying coefficient, and \<open>run_exp_lfo\<close> multiplies before it
  compares.\<close>

theorem exp_lfo_starts_negative:
  "init_lfo (1 / 10) 44100 0 = Inr lfo44100
   \<and> fst (run_lfo (set_lfo_type lfo44100 EXP)) = (exp (- 13133 / 2205000000) - 1) / exp 1
   \<and> (exp (- 13133 / 2205000000) - 1) / exp 1 < (0 :: real)"
proof -
  have "fst (run_lfo (set_lfo_type lfo44100 EXP)) = (exp (- 13133 / 2205000000) - 1) / exp 1"
    by (simp add: run_lfo_def set_lfo_type_def run_exp_lfo_def lfo44100_def Let_def
        diff_divide_distrib)
  moreover have "exp (- 13133 / 2205000000 :: real) < 1" by simp
  then have "(exp (- 13133 / 2205000000) - 1) / exp 1 < (0 :: real)"
    by (simp add: divide_neg_pos)
  ultimately show ?thesis using lfo44100_init by simp
qed

theorem lfo_output_bounds_witness:
  "init_lfo 1 8 0 = Inr lfo8
   \<and> fst (run_lfo_n 5 (set_lfo_type lfo8 TRI)) = [1 / 4, 1 / 2, 3 / 4, 1, 3 / 4]
   \<and> list_all (output_bound 1 8 TRI) [1 / 4, 1 / 2, 3 / 4, 1, 3 / 4]"
proof -
  have p: "pi * (2 * 1) / 8 < 2" using pi_less_4 by simp
  have e: "fst (run_lfo_n 5 (set_lfo_type lfo8 TRI)) = [1 / 4, 1 / 2, 3 / 4, 1, 3 / 4]"
    by (simp add: eval_nat_numeral run_lfo_def set_lfo_type_def run_triangle_lfo_def lfo8_def Let_def)
  from lfo_output_bounds [OF lfo8_init _ _ _ p, where t = TRI and n = 5]
  show ?thesis unfolding e using lfo8_init by simp
qed

section \<open>The square waveform\<close>

lemma square_shape_raw: "square_shape (1 / 2 * (1 + c)) = 8 * (c / (1 + 15 * \<bar>c\<bar>)) + 1 / 2"
proof (cases "c > 0")
  case True
  then show ?thesis by (simp add: square_shape_def Let_def field_simps)
next
  case False
  then show ?thesis by (simp add: square_shape_def Let_def field_simps)
qed

text \<open>C9: with \<open>SQUARE\<close> selected, \<open>run_lfo\<close> steps the sine oscillator, takes its raw
  state \<open>cos_part\<close> (the value before the remapping into [0, 1] that \<open>run_sine_lfo\<close>
  returns), soft-saturates it with the rational curve \<open>raw / (1 + 15 * |raw|)\<close>, scales
  the result by 8 and adds 1/2. The code gets there from the value \<open>run_sine_lfo\<close> returns,
  less 1/2 (half the raw state), through \<open>y / (1 + 30 * |y|)\<close> and a factor 16: the third
  conjunct.\<close>

theorem square_from_raw_sine:
  "run_lfo (set_lfo_type lp SQUARE) =
     (let (v, lp') = run_sine_lfo (set_lfo_type lp SQUARE);
          raw = cos_part lp'
      in (8 * (raw / (1 + 15 * \<bar>raw\<bar>)) + 1 / 2, lp'))
   \<and> fst (run_sine_lfo (set_lfo_type lp SQUARE))
       = 1 / 2 * (1 + cos_part (snd (run_sine_lfo (set_lfo_type lp SQUARE))))
   \<and> fst (run_lfo (set_lfo_type lp SQUARE))
       = 16 * ((fst (run_sine_lfo (set_lfo_type lp SQUARE)) - 1 / 2)
               / (1 + 30 * \<bar>fst (run_sine_lfo (set_lfo_type lp SQUARE)) - 1 / 2\<bar>)) + 1 / 2"
proof -
  obtain v lp' where r: "run_sine_lfo (set_lfo_type lp SQUARE) = (v, lp')" by fastforce
  then have v: "v = 1 / 2 * (1 + cos_part lp')"
    by (auto simp: run_sine_lfo_def Let_def)
  have t: "lfo_type (set_lfo_type lp SQUARE) = SQUARE" by (simp add: set_lfo_type_def)
  have a: "run_lfo (set_lfo_type lp SQUARE) = (square_shape v, lp')"
    by (simp add: run_lfo_def t r)
  have b: "square_shape v = 8 * (cos_part lp' / (1 + 15 * \<bar>cos_part lp'\<bar>)) + 1 / 2"
    unfolding v by (rule square_shape_raw)
  have c: "square_shape v = 16 * ((v - 1 / 2) / (1 + 30 * \<bar>v - 1 / 2\<bar>)) + 1 / 2"
    by (cases "v - 1 / 2 > 0") (simp_all add: square_shape_def Let_def)
  show ?thesis
    by (simp only: a r b c [symmetric] v [symmetric] Let_def split fst_conv snd_conv simp_thms)
qed

section \<open>The looper buffer\<close>

lemma int_rem_nonneg: "0 \<le> a \<Longrightarrow> 0 < b \<Longrightarrow> int_rem a b = Inr (a mod b)"
  by (simp add: int_rem_def INT_MIN_def sgn_if)

lemma recordAdd_eq:
  assumes "wf_buffer s"
  shows "recordAdd s x =
     Inr (s\<lparr>gAudioBuffer := (gAudioBuffer s)[nat (gWritePointer s) :=
                               gAudioBuffer s ! nat (gWritePointer s) + x * (3 / 4)],
            gWritePointer := (gWritePointer s + 1) mod gBufferSize s\<rparr>)"
proof -
  from assms have a: "0 \<le> gWritePointer s" "gWritePointer s < gBufferSize s"
    "gBufferSize s \<le> INT_MAX" "length (gAudioBuffer s) = nat (gBufferSize s)" "2 \<le> gBufferSize s"
    by (simp_all add: wf_buffer_def)
  have v: "vec_at (gAudioBuffer s) (gWritePointer s) = Inr (gAudioBuffer s ! nat (gWritePointer s))"
    using a by (simp add: vec_at_def)
  have p: "int_add (gWritePointer s) 1 = Inr (gWritePointer s + 1)"
    using a by (simp add: int_add_def INT_MIN_def)
  have r: "int_rem (gWritePointer s + 1) (gBufferSize s) = Inr ((gWritePointer s + 1) mod gBufferSize s)"
    using a by (intro int_rem_nonneg) auto
  show ?thesis by (simp add: recordAdd_def v p r)
qed

lemma wf_recordAdd:
  assumes "wf_buffer s"
  shows "wf_buffer (s\<lparr>gAudioBuffer := (gAudioBuffer s)[i := y],
            gWritePointer := (gWritePointer s + 1) mod gBufferSize s\<rparr>)"
  using assms by (simp add: wf_buffer_def)

subsection \<open>The read index\<close>

lemma to_float_882000: "to_float 882000 = 882000"
  using to_float_int [of 882000] by simp

lemma to_float_speed: "to_float (- (1 / 16384)) = - (1 / 16384)"
  using to_float_exact [of "- 1" "- 14"] by (simp add: powr_neg_numeral)

lemma to_float_sum: "to_float (14450687999 / 16384) = 882000"
proof -
  have "to_float (14450687999 / 16384) =
      of_int (round_even (14450687999 / 16384 / 2 powr (of_int 19 - 23))) * 2 powr (of_int 19 - 23)"
    by (rule to_float_binade) simp_all
  also have "2 powr (of_int 19 - 23) = (1 / 16 :: real)" by (simp add: powr_neg_numeral)
  also have "round_even (14450687999 / 16384 / (1 / 16)) = 14112000"
    by (simp add: round_even_def)
  finally show ?thesis by simp
qed

text \<open>Single precision is such a rounding for every buffer size from 2 to 2^24 - 2.\<close>

lemma rounds_like_single:
  assumes "2 \<le> n" "n \<le> 16777214"
  shows "rounds_like_float to_float n"
proof -
  have "to_float (of_int (- 2)) = of_int (- 2)" "to_float (of_int 2) = of_int 2"
    by (rule to_float_int, simp)+
  then have a: "to_float (- 2) = - 2" "to_float 2 = 2" by simp_all
  have "to_float (of_int (n - 2)) = of_int (n - 2)" "to_float (of_int n) = of_int n"
    "to_float (of_int (n + 2)) = of_int (n + 2)"
    by (rule to_float_int, use assms in simp)+
  then have b: "to_float (of_int n - 2) = of_int n - 2" "to_float (of_int n) = of_int n"
    "to_float (of_int n + 2) = of_int n + 2" by simp_all
  show ?thesis by (simp add: rounds_like_float_def to_float_mono a b)
qed

lemma rounds_like_exact: "rounds_like_float (\<lambda>x. x) n"
  by (simp add: rounds_like_float_def mono_def)

lemma playbackRead_float_exact: "playbackRead_float (\<lambda>x. x) s = playbackRead s"
  by (simp add: playbackRead_float_def playbackRead_def Let_def)

lemma recordAdd_eq_gen:
  assumes "0 < gBufferSize s" "gBufferSize s \<le> INT_MAX"
    "length (gAudioBuffer s) = nat (gBufferSize s)" "0 \<le> gWritePointer s"
    "gWritePointer s < gBufferSize s"
  shows "recordAdd s x =
     Inr (s\<lparr>gAudioBuffer := (gAudioBuffer s)[nat (gWritePointer s) :=
                               gAudioBuffer s ! nat (gWritePointer s) + x * (3 / 4)],
            gWritePointer := (gWritePointer s + 1) mod gBufferSize s\<rparr>)"
proof -
  have v: "vec_at (gAudioBuffer s) (gWritePointer s) = Inr (gAudioBuffer s ! nat (gWritePointer s))"
    using assms by (simp add: vec_at_def)
  have p: "int_add (gWritePointer s) 1 = Inr (gWritePointer s + 1)"
    using assms by (simp add: int_add_def INT_MIN_def)
  have r: "int_rem (gWritePointer s + 1) (gBufferSize s) = Inr ((gWritePointer s + 1) mod gBufferSize s)"
    using assms by (intro int_rem_nonneg) auto
  show ?thesis by (simp add: recordAdd_def v p r)
qed

lemma advance_range:
  fixes r v :: real and n :: int
  assumes "rounds_like_float rnd n" "2 \<le> n" "0 \<le> r" "r \<le> of_int n" "- 2 \<le> v" "v \<le> 2"
  shows "0 \<le> (if rnd (r + v) < 0 then rnd (rnd (r + v) + rnd (of_int n))
               else if rnd (r + v) \<ge> rnd (of_int n) then rnd (rnd (r + v) - rnd (of_int n))
               else rnd (r + v))
         \<and> (if rnd (r + v) < 0 then rnd (rnd (r + v) + rnd (of_int n))
               else if rnd (r + v) \<ge> rnd (of_int n) then rnd (rnd (r + v) - rnd (of_int n))
               else rnd (r + v)) \<le> of_int n"
proof -
  from assms(1) have m: "\<And>x y. x \<le> y \<Longrightarrow> rnd x \<le> rnd y"
    and e: "rnd (- 2) = - 2" "rnd 0 = 0" "rnd 2 = 2" "rnd (of_int n - 2) = of_int n - 2"
      "rnd (of_int n) = of_int n" "rnd (of_int n + 2) = of_int n + 2"
    by (auto simp: rounds_like_float_def mono_def)
  define a where "a = rnd (r + v)"
  have n2: "(2 :: real) \<le> of_int n" using assms(2) by simp
  have "rnd (- 2) \<le> a" unfolding a_def using assms(3,5) by (intro m) simp
  then have a_lo: "- 2 \<le> a" by (simp add: e)
  have "a \<le> rnd (of_int n + 2)" unfolding a_def using assms(4,6) by (intro m) simp
  then have a_hi: "a \<le> of_int n + 2" by (simp add: e)
  show ?thesis
  proof (cases "a < 0")
    case True
    have "rnd (of_int n - 2) \<le> rnd (a + of_int n)" using a_lo by (intro m) simp
    then have lo: "of_int n - 2 \<le> rnd (a + of_int n)" by (simp add: e)
    have "rnd (a + of_int n) \<le> rnd (of_int n)" using True by (intro m) simp
    then have hi: "rnd (a + of_int n) \<le> of_int n" by (simp add: e)
    show ?thesis using True lo hi n2 by (simp add: a_def [symmetric] e)
  next
    case False
    show ?thesis
    proof (cases "a \<ge> of_int n")
      case True
      have "rnd 0 \<le> rnd (a - of_int n)" using True by (intro m) simp
      then have lo: "0 \<le> rnd (a - of_int n)" by (simp add: e)
      have "rnd (a - of_int n) \<le> rnd 2" using a_hi by (intro m) simp
      then have hi: "rnd (a - of_int n) \<le> 2" by (simp add: e)
      show ?thesis using True False lo hi n2 by (simp add: a_def [symmetric] e)
    next
      case False
      then show ?thesis using \<open>\<not> a < 0\<close> by (simp add: a_def [symmetric] e)
    qed
  qed
qed

lemma playbackRead_float_eq:
  assumes "2 \<le> gBufferSize s" "gBufferSize s \<le> 16777214"
    and "length (gAudioBuffer s) = nat (gBufferSize s)"
    and "0 \<le> readIndex s" "readIndex s \<le> of_int (gBufferSize s)"
    and "- 2 \<le> gPlaybackSpeed s" "gPlaybackSpeed s \<le> 2"
  shows "let capacity = gBufferSize s;
             r1 = to_float (readIndex s + gPlaybackSpeed s);
             r = (if r1 < 0 then to_float (r1 + of_int capacity)
                  else if r1 \<ge> of_int capacity then to_float (r1 - of_int capacity)
                  else r1);
             moved = readIndex s + gPlaybackSpeed s;
             exact = (if moved < 0 then moved + of_int capacity
                      else if moved \<ge> of_int capacity then moved - of_int capacity
                      else moved)
         in playbackRead_float to_float s =
              Inr (gAudioBuffer s ! (nat \<lfloor>readIndex s\<rfloor> mod nat capacity), s\<lparr>readIndex := r\<rparr>)
            \<and> 0 \<le> r \<and> r \<le> of_int capacity
            \<and> playbackRead s =
              Inr (gAudioBuffer s ! (nat \<lfloor>readIndex s\<rfloor> mod nat capacity), s\<lparr>readIndex := exact\<rparr>)
            \<and> 0 \<le> exact \<and> (readIndex s < of_int capacity \<longrightarrow> exact < of_int capacity)"
proof -
  define c where "c = gBufferSize s"
  define r where "r = readIndex s"
  define v where "v = gPlaybackSpeed s"
  have a: "2 \<le> c" "c \<le> 16777214" "length (gAudioBuffer s) = nat c" "0 \<le> r" "r \<le> of_int c"
    "- 2 \<le> v" "v \<le> 2"
    using assms by (simp_all add: c_def r_def v_def)
  have cmax: "c \<le> INT_MAX" using a(2) by (simp add: INT_MAX_def)
  have rl: "rounds_like_float to_float c" by (rule rounds_like_single [OF a(1,2)])
  then have fc: "to_float (of_int c) = of_int c" by (simp add: rounds_like_float_def)
  have fl: "0 \<le> \<lfloor>r\<rfloor>" "\<lfloor>r\<rfloor> \<le> c" using a(4,5) by (simp_all add: floor_le_iff le_floor_iff)
  have tr: "trunc r = \<lfloor>r\<rfloor>" using a by (simp add: trunc_def)
  have conv: "float_to_int r = Inr \<lfloor>r\<rfloor>"
    using fl cmax by (simp add: float_to_int_def tr INT_MIN_def)
  have rem: "int_rem \<lfloor>r\<rfloor> c = Inr (\<lfloor>r\<rfloor> mod c)"
    using fl(1) a(1) by (intro int_rem_nonneg) auto
  have m: "0 \<le> \<lfloor>r\<rfloor> mod c" "\<lfloor>r\<rfloor> mod c < c" using a(1) by simp_all
  have idx: "nat (\<lfloor>r\<rfloor> mod c) = nat \<lfloor>r\<rfloor> mod nat c"
    using fl(1) a(1) by (intro nat_mod_distrib) auto
  have at: "vec_at (gAudioBuffer s) (\<lfloor>r\<rfloor> mod c) = Inr (gAudioBuffer s ! (nat \<lfloor>r\<rfloor> mod nat c))"
    using m a(3) by (simp add: vec_at_def idx)
  have pf: "playbackRead_float to_float s =
      Inr (gAudioBuffer s ! (nat \<lfloor>r\<rfloor> mod nat c),
           s\<lparr>readIndex := (if to_float (r + v) < 0 then to_float (to_float (r + v) + of_int c)
                            else if to_float (r + v) \<ge> of_int c then to_float (to_float (r + v) - of_int c)
                            else to_float (r + v))\<rparr>)"
    by (simp add: playbackRead_float_def conv [unfolded r_def] rem [unfolded r_def c_def]
        at [unfolded r_def c_def] Let_def fc [unfolded c_def] r_def c_def v_def)
  have pe: "playbackRead s =
      Inr (gAudioBuffer s ! (nat \<lfloor>r\<rfloor> mod nat c),
           s\<lparr>readIndex := (if r + v < 0 then r + v + of_int c
                            else if r + v \<ge> of_int c then r + v - of_int c
                            else r + v)\<rparr>)"
    by (simp add: playbackRead_def conv [unfolded r_def] rem [unfolded r_def c_def]
        at [unfolded r_def c_def] Let_def r_def c_def v_def)
  have rg: "0 \<le> (if to_float (r + v) < 0 then to_float (to_float (r + v) + of_int c)
               else if to_float (r + v) \<ge> of_int c then to_float (to_float (r + v) - of_int c)
               else to_float (r + v))
         \<and> (if to_float (r + v) < 0 then to_float (to_float (r + v) + of_int c)
               else if to_float (r + v) \<ge> of_int c then to_float (to_float (r + v) - of_int c)
               else to_float (r + v)) \<le> of_int c"
    using advance_range [OF rl a(1) a(4,5,6,7)] unfolding fc .
  have c2: "(2 :: real) \<le> of_int c" using a(1) by simp
  have ex: "0 \<le> (if r + v < 0 then r + v + of_int c
                  else if r + v \<ge> of_int c then r + v - of_int c else r + v)"
    "r < of_int c \<longrightarrow> (if r + v < 0 then r + v + of_int c
                  else if r + v \<ge> of_int c then r + v - of_int c else r + v) < of_int c"
    using a(4,5,6,7) c2 by auto
  show ?thesis
    unfolding Let_def
    using pf pe rg ex
    unfolding r_def c_def v_def by blast
qed

text \<open>C6, as the code has it: for a playback speed in [-2, 2], a buffer of 2 to
  2^24 - 2 slots and a read index in [0, capacity], \<open>playbackRead\<close> returns the slot at
  \<open>floor(readIndex) mod capacity\<close>, then moves the read index by the speed and brings it
  back by adding or subtracting the capacity once. In single precision, as the code
  computes, the read index is then in [0, capacity]; in exact arithmetic, from a read
  index below the capacity, it is in [0, capacity). The write pointer is an integer
  index that \<open>recordAdd\<close> advances by 1 modulo the capacity.\<close>

theorem playbackRead_normalizes:
  assumes "2 \<le> gBufferSize s" "gBufferSize s \<le> 16777214"
    and "length (gAudioBuffer s) = nat (gBufferSize s)"
    and "0 \<le> gWritePointer s" "gWritePointer s < gBufferSize s"
    and "0 \<le> readIndex s" "readIndex s \<le> of_int (gBufferSize s)"
    and "- 2 \<le> gPlaybackSpeed s" "gPlaybackSpeed s \<le> 2"
  shows "let capacity = gBufferSize s;
             r1 = to_float (readIndex s + gPlaybackSpeed s);
             r = (if r1 < 0 then to_float (r1 + of_int capacity)
                  else if r1 \<ge> of_int capacity then to_float (r1 - of_int capacity)
                  else r1);
             moved = readIndex s + gPlaybackSpeed s;
             exact = (if moved < 0 then moved + of_int capacity
                      else if moved \<ge> of_int capacity then moved - of_int capacity
                      else moved);
             w = (gWritePointer s + 1) mod capacity
         in playbackRead_float to_float s =
              Inr (gAudioBuffer s ! (nat \<lfloor>readIndex s\<rfloor> mod nat capacity), s\<lparr>readIndex := r\<rparr>)
            \<and> 0 \<le> r \<and> r \<le> of_int capacity
            \<and> playbackRead s =
              Inr (gAudioBuffer s ! (nat \<lfloor>readIndex s\<rfloor> mod nat capacity), s\<lparr>readIndex := exact\<rparr>)
            \<and> 0 \<le> exact \<and> (readIndex s < of_int capacity \<longrightarrow> exact < of_int capacity)
            \<and> recordAdd s x =
              Inr (s\<lparr>gAudioBuffer := (gAudioBuffer s)[nat (gWritePointer s) :=
                                        gAudioBuffer s ! nat (gWritePointer s) + x * (3 / 4)],
                     gWritePointer := w\<rparr>)
            \<and> 0 \<le> w \<and> w < capacity"
proof -
  have cmax: "gBufferSize s \<le> INT_MAX" using assms(2) by (simp add: INT_MAX_def)
  have ra: "recordAdd s x =
     Inr (s\<lparr>gAudioBuffer := (gAudioBuffer s)[nat (gWritePointer s) :=
                               gAudioBuffer s ! nat (gWritePointer s) + x * (3 / 4)],
            gWritePointer := (gWritePointer s + 1) mod gBufferSize s\<rparr>)"
    using assms(1,3,4,5) cmax by (intro recordAdd_eq_gen) auto
  have w: "0 \<le> (gWritePointer s + 1) mod gBufferSize s"
    "(gWritePointer s + 1) mod gBufferSize s < gBufferSize s"
    using assms(1) by simp_all
  note p = playbackRead_float_eq [OF assms(1,2,3,6,7,8,9), unfolded Let_def]
  show ?thesis
    unfolding Let_def using p ra w by blast
qed

text \<open>C6 as stated fails in single precision: from read index 0 with speed -2^-14 the sum
  is negative, and the sum with the capacity, 882000 - 2^-14, rounds to 882000: the read
  index is the capacity itself. (The next read takes it modulo the capacity, slot 0.)\<close>

theorem readIndex_rounds_to_capacity:
  "playbackRead_float to_float looper882000 = Inr (0, looper882000\<lparr>readIndex := 882000\<rparr>)
   \<and> gBufferSize looper882000 = 882000"
  by (simp add: playbackRead_float_def looper882000_def float_to_int_def trunc_def int_rem_def
      vec_at_def INT_MIN_def INT_MAX_def Let_def to_float_882000 to_float_speed to_float_sum)

theorem playbackRead_normalizes_witness:
  "playbackRead_float to_float (looper882000\<lparr>gPlaybackSpeed := 2\<rparr>)
     = Inr (0, looper882000\<lparr>gPlaybackSpeed := 2, readIndex := 2\<rparr>)
   \<and> playbackRead_float to_float (looper4\<lparr>gPlaybackSpeed := - 2\<rparr>)
       = Inr (2, looper4\<lparr>gPlaybackSpeed := - 2, readIndex := 7 / 2\<rparr>)
   \<and> playbackRead (looper4\<lparr>gPlaybackSpeed := - 2\<rparr>)
       = Inr (2, looper4\<lparr>gPlaybackSpeed := - 2, readIndex := 7 / 2\<rparr>)
   \<and> recordAdd (looper4\<lparr>gPlaybackSpeed := - 2\<rparr>) 1
       = Inr (looper4\<lparr>gPlaybackSpeed := - 2, gAudioBuffer := [1, 2, 15 / 4, 4], gWritePointer := 3\<rparr>)"
proof -
  let ?s = "looper882000\<lparr>gPlaybackSpeed := 2\<rparr>"
  have h: "2 \<le> gBufferSize ?s" "gBufferSize ?s \<le> 16777214"
    "length (gAudioBuffer ?s) = nat (gBufferSize ?s)"
    "0 \<le> gWritePointer ?s" "gWritePointer ?s < gBufferSize ?s"
    "0 \<le> readIndex ?s" "readIndex ?s \<le> of_int (gBufferSize ?s)"
    "- 2 \<le> gPlaybackSpeed ?s" "gPlaybackSpeed ?s \<le> 2"
    by (simp_all add: looper882000_def)
  have f2: "to_float 2 = 2" using to_float_int [of 2] by simp
  have a: "playbackRead_float to_float ?s = Inr (0, looper882000\<lparr>gPlaybackSpeed := 2, readIndex := 2\<rparr>)"
    using playbackRead_normalizes [OF h, of 0]
    by (simp add: Let_def looper882000_def f2)
  let ?t = "looper4\<lparr>gPlaybackSpeed := - 2\<rparr>"
  have h4: "2 \<le> gBufferSize ?t" "gBufferSize ?t \<le> 16777214"
    "length (gAudioBuffer ?t) = nat (gBufferSize ?t)"
    "0 \<le> gWritePointer ?t" "gWritePointer ?t < gBufferSize ?t"
    "0 \<le> readIndex ?t" "readIndex ?t \<le> of_int (gBufferSize ?t)"
    "- 2 \<le> gPlaybackSpeed ?t" "gPlaybackSpeed ?t \<le> 2"
    by (simp_all add: looper4_def)
  have fh: "to_float (- (1 / 2)) = - (1 / 2)" "to_float (7 / 2) = 7 / 2"
    using to_float_half [of "- 1"] to_float_half [of 7] by simp_all
  have b: "playbackRead_float to_float ?t = Inr (2, looper4\<lparr>gPlaybackSpeed := - 2, readIndex := 7 / 2\<rparr>)
      \<and> playbackRead ?t = Inr (2, looper4\<lparr>gPlaybackSpeed := - 2, readIndex := 7 / 2\<rparr>)
      \<and> recordAdd ?t 1
       = Inr (looper4\<lparr>gPlaybackSpeed := - 2, gAudioBuffer := [1, 2, 15 / 4, 4], gWritePointer := 3\<rparr>)"
    using playbackRead_normalizes [OF h4, of 1]
    by (simp add: Let_def looper4_def fh)
  show ?thesis using a b by simp
qed

lemma recordAdd_list_append:
  "recordAdd_list s (xs @ ys) = bind (recordAdd_list s xs) (\<lambda>s'. recordAdd_list s' ys)"
proof (induction xs arbitrary: s)
  case Nil
  then show ?case by simp
next
  case (Cons x xs)
  then show ?case by (cases "recordAdd s x") simp_all
qed

lemma recordAdd_list_skip:
  assumes "wf_buffer s" "0 \<le> j" "j < gBufferSize s"
    and "int (length xs) \<le> (j - gWritePointer s) mod gBufferSize s"
  shows "\<exists>s'. recordAdd_list s xs = Inr s' \<and> wf_buffer s' \<and> gBufferSize s' = gBufferSize s
              \<and> gAudioBuffer s' ! nat j = gAudioBuffer s ! nat j
              \<and> gWritePointer s' = (gWritePointer s + int (length xs)) mod gBufferSize s"
  using assms
proof (induction xs arbitrary: s)
  case Nil
  then show ?case by (simp add: wf_buffer_def)
next
  case (Cons x xs)
  define c where "c = gBufferSize s"
  define w where "w = gWritePointer s"
  define s1 where "s1 = s\<lparr>gAudioBuffer := (gAudioBuffer s)[nat w := gAudioBuffer s ! nat w + x * (3 / 4)],
                           gWritePointer := (w + 1) mod c\<rparr>"
  have c: "2 \<le> c" "0 \<le> w" "w < c" using Cons.prems(1) by (simp_all add: wf_buffer_def c_def w_def)
  have step: "recordAdd s x = Inr s1"
    unfolding s1_def w_def c_def by (rule recordAdd_eq [OF Cons.prems(1)])
  have wf1: "wf_buffer s1"
    unfolding s1_def w_def c_def by (rule wf_recordAdd [OF Cons.prems(1)])
  have d: "1 \<le> (j - w) mod c" using Cons.prems(4) by (simp add: c_def w_def)
  have jw: "j \<noteq> w"
  proof
    assume "j = w"
    then have "(j - w) mod c = 0" by simp
    with d show False by simp
  qed
  then have nj: "nat j \<noteq> nat w" using Cons.prems(2) c(2) by linarith
  have dlt: "(j - w) mod c < c" using c(1) by simp
  have "(j - (w + 1) mod c) mod c = (j - (w + 1)) mod c" by (simp add: mod_diff_right_eq)
  also have "\<dots> = ((j - w) mod c - 1) mod c"
    by (metis diff_diff_eq mod_diff_left_eq)
  also have "\<dots> = (j - w) mod c - 1" using d dlt by simp
  finally have d1: "(j - gWritePointer s1) mod gBufferSize s1 = (j - w) mod c - 1"
    by (simp add: s1_def c_def)
  have len: "int (length xs) \<le> (j - gWritePointer s1) mod gBufferSize s1"
    unfolding d1 using Cons.prems(4) by (simp add: c_def w_def)
  have j1: "j < gBufferSize s1" using Cons.prems(3) by (simp add: s1_def)
  from Cons.IH [OF wf1 Cons.prems(2) j1 len]
  obtain s' where s': "recordAdd_list s1 xs = Inr s'" "wf_buffer s'" "gBufferSize s' = gBufferSize s1"
    "gAudioBuffer s' ! nat j = gAudioBuffer s1 ! nat j"
    "gWritePointer s' = (gWritePointer s1 + int (length xs)) mod gBufferSize s1" by blast
  have b: "gAudioBuffer s1 ! nat j = gAudioBuffer s ! nat j"
    using nj by (simp add: s1_def)
  have "((w + 1) mod c + int (length xs)) mod c = (w + 1 + int (length xs)) mod c"
    by (rule mod_add_left_eq)
  also have "w + 1 + int (length xs) = w + int (length (x # xs))" by simp
  finally have "((w + 1) mod c + int (length xs)) mod c = (w + int (length (x # xs))) mod c" .
  then have p: "gWritePointer s' = (gWritePointer s + int (length (x # xs))) mod gBufferSize s"
    using s'(5) by (simp add: s1_def c_def w_def)
  show ?case
    using step s'(1,2,3,4) b p by (simp add: s1_def c_def)
qed

text \<open>C7: \<open>recordAdd\<close> adds 3/4 of the sample into the slot at the write pointer and
  advances the write pointer by 1 modulo the capacity; so \<open>recordAdd c\<close>, then as many
  calls as bring the write pointer round to the same slot, then \<open>recordAdd c\<close> again leave
  the slot \<open>2 * 0.75 * c\<close> above what it held.\<close>

theorem recordAdd_overdubs:
  assumes "wf_buffer s" "length xs + 1 = nat (gBufferSize s)"
  shows "recordAdd s c =
           Inr (s\<lparr>gAudioBuffer := (gAudioBuffer s)[nat (gWritePointer s) :=
                                     gAudioBuffer s ! nat (gWritePointer s) + c * (3 / 4)],
                  gWritePointer := (gWritePointer s + 1) mod gBufferSize s\<rparr>)
         \<and> (case recordAdd_list s (c # xs @ [c]) of
               Inl e \<Rightarrow> False
             | Inr s' \<Rightarrow>
                 gAudioBuffer s' ! nat (gWritePointer s)
                   = gAudioBuffer s ! nat (gWritePointer s) + 2 * (3 / 4) * c
                 \<and> gWritePointer s' = (gWritePointer s + 1) mod gBufferSize s)"
proof -
  define n where "n = gBufferSize s"
  define w where "w = gWritePointer s"
  define s1 where "s1 = s\<lparr>gAudioBuffer := (gAudioBuffer s)[nat w := gAudioBuffer s ! nat w + c * (3 / 4)],
                           gWritePointer := (w + 1) mod n\<rparr>"
  have a: "2 \<le> n" "0 \<le> w" "w < n" "length (gAudioBuffer s) = nat n"
    using assms(1) by (simp_all add: wf_buffer_def n_def w_def)
  have step: "recordAdd s c = Inr s1"
    unfolding s1_def w_def n_def by (rule recordAdd_eq [OF assms(1)])
  have wf1: "wf_buffer s1"
    unfolding s1_def w_def n_def by (rule wf_recordAdd [OF assms(1)])
  have len: "int (length xs) = n - 1" using assms(2) a(1) by (simp add: n_def)
  have "(w - (w + 1) mod n) mod n = (w - (w + 1)) mod n" by (simp add: mod_diff_right_eq)
  also have "\<dots> = (- 1) mod n" by simp
  also have "\<dots> = n - 1" using a(1) by (simp add: zmod_minus1)
  finally have dist: "int (length xs) \<le> (w - gWritePointer s1) mod gBufferSize s1"
    using len by (simp add: s1_def n_def)
  have w1: "w < gBufferSize s1" using a by (simp add: s1_def n_def)
  from recordAdd_list_skip [OF wf1 a(2) w1 dist]
  obtain s2 where s2: "recordAdd_list s1 xs = Inr s2" "wf_buffer s2" "gBufferSize s2 = gBufferSize s1"
    "gAudioBuffer s2 ! nat w = gAudioBuffer s1 ! nat w"
    "gWritePointer s2 = (gWritePointer s1 + int (length xs)) mod gBufferSize s1" by blast
  have "((w + 1) mod n + (n - 1)) mod n = (w + 1 + (n - 1)) mod n"
    by (simp add: mod_add_left_eq)
  also have "\<dots> = w" using a by simp
  finally have p2: "gWritePointer s2 = w" using s2(5) len by (simp add: s1_def n_def)
  have b1: "gAudioBuffer s1 ! nat w = gAudioBuffer s ! nat w + c * (3 / 4)"
    using a by (simp add: s1_def)
  have n2: "gBufferSize s2 = n" using s2(3) by (simp add: s1_def n_def)
  have l2: "nat w < length (gAudioBuffer s2)"
    using s2(2) a n2 by (simp add: wf_buffer_def)
  have last: "recordAdd s2 c = Inr (s2\<lparr>gAudioBuffer := (gAudioBuffer s2)[nat w := gAudioBuffer s2 ! nat w + c * (3 / 4)],
                                      gWritePointer := (w + 1) mod n\<rparr>)"
    using recordAdd_eq [OF s2(2), of c] by (simp add: p2 n2)
  have all: "recordAdd_list s (c # xs @ [c]) =
      Inr (s2\<lparr>gAudioBuffer := (gAudioBuffer s2)[nat w := gAudioBuffer s2 ! nat w + c * (3 / 4)],
              gWritePointer := (w + 1) mod n\<rparr>)"
    by (simp add: step recordAdd_list_append s2(1) last)
  show ?thesis
    unfolding all using step l2 s2(4) b1 by (simp add: s1_def w_def n_def)
qed

theorem recordAdd_overdubs_witness:
  "recordAdd (looper4\<lparr>gAudioBuffer := [0, 0, 0, 0], gWritePointer := 0\<rparr>) 1
     = Inr (looper4\<lparr>gAudioBuffer := [3 / 4, 0, 0, 0], gWritePointer := 1\<rparr>)
   \<and> recordAdd_list (looper4\<lparr>gAudioBuffer := [0, 0, 0, 0], gWritePointer := 0\<rparr>) [1, 5, 6, 7, 1]
     = Inr (looper4\<lparr>gAudioBuffer := [3 / 2, 15 / 4, 9 / 2, 21 / 4], gWritePointer := 1\<rparr>)"
proof -
  let ?s = "looper4\<lparr>gAudioBuffer := [0, 0, 0, 0], gWritePointer := 0\<rparr>"
  have wf: "wf_buffer ?s" by (simp add: wf_buffer_def looper4_def INT_MAX_def)
  have len: "length [5, 6, 7 :: real] + 1 = nat (gBufferSize ?s)" by (simp add: looper4_def)
  have run: "recordAdd_list ?s [1, 5, 6, 7, 1]
     = Inr (looper4\<lparr>gAudioBuffer := [3 / 2, 15 / 4, 9 / 2, 21 / 4], gWritePointer := 1\<rparr>)"
    by (simp add: recordAdd_def vec_at_def int_add_def int_rem_def INT_MIN_def INT_MAX_def looper4_def)
  show ?thesis
    using recordAdd_overdubs [OF wf len, of 1] run by (simp add: looper4_def)
qed

section \<open>The clear button\<close>

lemma render_control_statics:
  "render_control s f = Inr s1 \<Longrightarrow>
     localLastClearButtonState s1 = localLastClearButtonState s \<and> gClearedOnce s1 = gClearedOnce s"
  by (auto simp: render_control_def Let_def bind_def split: if_splits sum.splits prod.splits)

lemma render_toggle_statics:
  "localLastClearButtonState (render_toggle s f) = localLastClearButtonState s \<and>
   gClearedOnce (render_toggle s f) = gClearedOnce s"
  by (simp add: render_toggle_def Let_def)

text \<open>C10: when the clear button rises and the one-shot guard is not set, the handler
  zeroes the looper buffer and resets the cursors, and it also sets \<open>gRecording\<close> and
  \<open>gPlaying\<close> to false and writes \<open>LOW\<close> to the LED pin (and sets the guard). The frame then
  records nothing, plays nothing and outputs 0.\<close>

theorem clear_stops_and_led_off:
  assumes "clearButtonState f = 1" "localLastClearButtonState s = 0" "\<not> gClearedOnce s"
    and "render_control s f = Inr s1"
  shows "render_clear s f =
           s\<lparr>gAudioBuffer := replicate (length (gAudioBuffer s)) 0,
             gWritePointer := 0, gReadPointer := 0, readIndex := 0,
             gRecording := False, gPlaying := False, ledPin := False,
             gClearedOnce := True, localLastClearButtonState := 1\<rparr>
         \<and> render_frame s f =
           Inr (0, (render_toggle s1 f)
                 \<lparr>gAudioBuffer := replicate (length (gAudioBuffer (render_toggle s1 f))) 0,
                  gWritePointer := 0, gReadPointer := 0, readIndex := 0,
                  gRecording := False, gPlaying := False, ledPin := False,
                  gClearedOnce := True, localLastClearButtonState := 1\<rparr>)"
proof -
  have edge: "\<And>t. localLastClearButtonState t = 0 \<Longrightarrow> \<not> gClearedOnce t \<Longrightarrow>
      render_clear t f =
           t\<lparr>gAudioBuffer := replicate (length (gAudioBuffer t)) 0,
             gWritePointer := 0, gReadPointer := 0, readIndex := 0,
             gRecording := False, gPlaying := False, ledPin := False,
             gClearedOnce := True, localLastClearButtonState := 1\<rparr>"
    using assms(1) by (simp add: render_clear_def Let_def)
  have t: "localLastClearButtonState (render_toggle s1 f) = 0" "\<not> gClearedOnce (render_toggle s1 f)"
    using render_control_statics [OF assms(4)] render_toggle_statics [of s1 f] assms(2,3) by auto
  show ?thesis
    using edge [OF assms(2,3)] edge [OF t]
    by (simp add: render_frame_def assms(4) Let_def render_record_def render_play_def)
qed

theorem clear_stops_and_led_off_witness:
  "render_frame looper4
     \<lparr>frame_n = 1, analogMix = 0, analogFb = 0, speedVal = 3 / 4, lfoDepth = 0,
      audio_in = 1, buttonState = 1, clearButtonState = 1\<rparr>
   = Inr (0, looper4\<lparr>gAudioBuffer := [0, 0, 0, 0], gWritePointer := 0, readIndex := 0,
                    gRecording := False, gPlaying := False, ledPin := False,
                    gClearedOnce := True, localLastClearButtonState := 1\<rparr>)"
proof -
  let ?f = "\<lparr>frame_n = 1, analogMix = 0, analogFb = 0, speedVal = 3 / 4, lfoDepth = 0,
      audio_in = 1, buttonState = 1, clearButtonState = 1\<rparr>"
  have c: "render_control looper4 ?f = Inr looper4"
    by (simp add: render_control_def looper4_def)
  have "clearButtonState ?f = 1" "localLastClearButtonState looper4 = 0" "\<not> gClearedOnce looper4"
    by (simp_all add: looper4_def)
  from clear_stops_and_led_off [OF this c]
  show ?thesis by (simp add: render_toggle_def looper4_def replicate4)
qed

section \<open>The loop of render\<close>














text \<open>The state \<open>setup\<close> leaves is well formed, with the clear button released and the
  guard not set.\<close>

lemma setup_looper_wf:
  assumes "audioSampleRate \<noteq> 0"
  shows "\<exists>s. setup_looper audioSampleRate audioFrames analogFrames = Inr s \<and> wf_looper s
             \<and> localLastClearButtonState s = 0 \<and> \<not> gClearedOnce s"
proof -
  have i: "init_lfo (1 / 10) audioSampleRate 0 \<noteq> Inl e" for e
    using assms
    by (simp add: init_lfo_def Let_def float_to_int_def trunc_def INT_MIN_def INT_MAX_def)
  then obtain lp where lp: "init_lfo (1 / 10) audioSampleRate 0 = Inr lp"
    by (cases "init_lfo (1 / 10) audioSampleRate 0") auto
  have wd: "wf_delay delay44100" by (rule wf_delay44100)
  show ?thesis
    unfolding setup_looper_def delay44100_new lp bind_Inr
    using wd by (simp add: wf_looper_def delay44100_def)
qed








end
